theory Spec2Isabelle
  imports Complex_Main "HOL-Library.AList"
begin

section \<open>Event gateway: \<open>app/microspat/events_v2/base.py\<close>\<close>

subsection \<open>Request payloads and Python exceptions\<close>

text \<open>
  A decoded request payload. A JSON object is kept as its list of key/value pairs and read
  with \<open>map_of\<close>. Numbers with a fractional part carry a rational; \<open>NaN\<close> and the
  infinities are not JSON and are left out.
\<close>

datatype json =
    JNull
  | JBool bool
  | JInt int
  | JFloat rat
  | JStr string
  | JList "json list"
  | JObject "(string \<times> json) list"

text \<open>
  The exceptions the modelled functions can raise. \<open>GetException\<close> carries its two
  arguments, the message and the offending payload.
\<close>

datatype error =
    KeyError
  | TypeError
  | ValueError
  | IndexError
  | ZeroDivisionError
  | NoResultFound
  | MultipleResultsFound
  | GetException string json

text \<open>
  A call that may raise returns \<open>Inl\<close> of the exception or \<open>Inr\<close> of its value;
  \<open>bind_result\<close> sequences two such calls and \<open>map_result\<close> runs one over a
  list from left to right, stopping at the first exception.
\<close>

definition bind_result :: "error + 'a \<Rightarrow> ('a \<Rightarrow> error + 'b) \<Rightarrow> error + 'b" where
  "bind_result m f = (case m of Inl e \<Rightarrow> Inl e | Inr v \<Rightarrow> f v)"

fun map_result :: "('a \<Rightarrow> error + 'b) \<Rightarrow> 'a list \<Rightarrow> error + 'b list" where
  "map_result f [] = Inr []"
| "map_result f (x # xs) =
     bind_result (f x) (\<lambda>y. bind_result (map_result f xs) (\<lambda>ys. Inr (y # ys)))"

subsection \<open>Python's \<open>int(...)\<close>\<close>

definition is_space :: "char \<Rightarrow> bool" where
  "is_space c = (of_char c \<in> {9::nat, 10, 11, 12, 13, 32})"

definition is_digit :: "char \<Rightarrow> bool" where
  "is_digit c = (48 \<le> (of_char c :: nat) \<and> (of_char c :: nat) \<le> 57)"

definition strip :: "string \<Rightarrow> string" where
  "strip s = rev (dropWhile is_space (rev (dropWhile is_space s)))"

definition digits_val :: "string \<Rightarrow> nat" where
  "digits_val ds = foldl (\<lambda>acc c. 10 * acc + (of_char c - 48)) 0 ds"

text \<open>
  \<open>int(s)\<close> on a string: surrounding whitespace is dropped, one sign is allowed, and the
  rest must be a non-empty run of decimal digits; anything else is a \<open>ValueError\<close>.
  Characters are bytes here, so the model covers ASCII text: the ASCII digits and the six
  ASCII whitespace characters. Digits and spaces outside ASCII, and the underscores that
  later Python versions allow between digits, are not represented and count as invalid.
\<close>

definition int_of_str :: "string \<Rightarrow> error + int" where
  "int_of_str s =
     (let t = strip s;
          neg = (case t of c # _ \<Rightarrow> c = CHR ''-'' | [] \<Rightarrow> False);
          ds = (case t of c # r \<Rightarrow> if c = CHR ''-'' \<or> c = CHR ''+'' then r else t | [] \<Rightarrow> t)
      in if ds \<noteq> [] \<and> list_all is_digit ds
         then Inr (if neg then - int (digits_val ds) else int (digits_val ds))
         else Inl ValueError)"

text \<open>
  \<open>int(x)\<close> on a decoded value: integers are kept, booleans are the integers 0 and 1,
  a float is truncated towards zero, a string is parsed, and \<open>None\<close>, lists and
  dictionaries raise \<open>TypeError\<close>.
\<close>

fun py_int :: "json \<Rightarrow> error + int" where
  "py_int (JInt n) = Inr n"
| "py_int (JBool b) = Inr (if b then 1 else 0)"
| "py_int (JFloat r) = Inr (if 0 \<le> r then \<lfloor>r\<rfloor> else \<lceil>r\<rceil>)"
| "py_int (JStr s) = int_of_str s"
| "py_int JNull = Inl TypeError"
| "py_int (JList xs) = Inl TypeError"
| "py_int (JObject kvs) = Inl TypeError"

text \<open>\<open>list(map(int, ids))\<close>: the first element that raises ends the conversion.\<close>

definition map_int :: "json list \<Rightarrow> error + int list" where
  "map_int xs = map_result py_int xs"

subsection \<open>\<open>extract_ids\<close>\<close>

text \<open>
  The \<open>try\<close> block of \<open>extract_ids\<close> turns a \<open>ValueError\<close> into a
  \<open>GetException\<close>; every other exception passes through unchanged.
\<close>

definition catch_ValueError :: "json \<Rightarrow> error + 'a \<Rightarrow> error + 'a" where
  "catch_ValueError js r =
     (case r of
        Inl ValueError \<Rightarrow> Inl (GetException ''Field id not valid'' js)
      | Inl e \<Rightarrow> Inl e
      | Inr v \<Rightarrow> Inr v)"

text \<open>
  \<open>json['id']\<close> is evaluated before the \<open>try\<close> block: on a dictionary without the
  key it raises \<open>KeyError\<close>, on a payload that is not a dictionary \<open>TypeError\<close>.
  \<open>isinstance(ids, (int, str))\<close> holds for integers, booleans (a subclass of
  \<open>int\<close>) and strings.
\<close>

definition extract_ids :: "json \<Rightarrow> error + int list" where
  "extract_ids js =
     (case js of
        JObject kvs \<Rightarrow>
          (case map_of kvs ''id'' of
             None \<Rightarrow> Inl KeyError
           | Some ids \<Rightarrow>
               (case ids of
                  JList xs \<Rightarrow> catch_ValueError js (map_int xs)
                | JInt n \<Rightarrow> catch_ValueError js (map_int [ids])
                | JBool b \<Rightarrow> catch_ValueError js (map_int [ids])
                | JStr s \<Rightarrow> catch_ValueError js (map_int [ids])
                | _ \<Rightarrow> Inl (GetException ''Field id not valid'' js)))
      | _ \<Rightarrow> Inl TypeError)"

subsection \<open>\<open>subset\<close> and \<open>base_get\<close>\<close>

text \<open>
  The generator \<open>subset\<close> yields \<open>l[i : i + subset_size]\<close> and advances \<open>i\<close> by
  \<open>subset_size\<close> while \<open>i < len(l)\<close>. With \<open>subset_size = 0\<close> and a non-empty list
  it never finishes, so the list of everything it yields is an optional value.
\<close>

partial_function (option) subset_from :: "'a list \<Rightarrow> nat \<Rightarrow> nat \<Rightarrow> 'a list list option" where
  "subset_from l subset_size i =
     (if i < length l
      then Option.bind (subset_from l subset_size (i + subset_size))
             (\<lambda>rest. Some (take subset_size (drop i l) # rest))
      else Some [])"

declare subset_from.simps [code]

definition subset :: "'a list \<Rightarrow> nat \<Rightarrow> 'a list list option" where
  "subset l subset_size = subset_from l subset_size 0"

text \<open>
  One published event: its name and the rows it carries (the serialised dump of
  \<open>model.query.filter(model.id.in_(id_subset)).all()\<close>).
\<close>

record 'r event =
  ev_name :: string
  ev_rows :: "'r list"

definition query_id_in :: "'r list \<Rightarrow> ('r \<Rightarrow> int) \<Rightarrow> int list \<Rightarrow> 'r list" where
  "query_id_in table row_id id_subset = filter (\<lambda>r. row_id r \<in> set id_subset) table"

text \<open>
  The handler returned by \<open>base_get\<close>, as the list of events it emits: an exception of
  \<open>extract_ids\<close> ends it before anything is published.
\<close>

definition base_get ::
  "'r list \<Rightarrow> ('r \<Rightarrow> int) \<Rightarrow> nat \<Rightarrow> json \<Rightarrow> (error + 'r event list) option" where
  "base_get table row_id subset_size js =
     (case extract_ids js of
        Inl e \<Rightarrow> Some (Inl e)
      | Inr ids \<Rightarrow>
          map_option
            (\<lambda>chunks. Inr (map (\<lambda>id_subset.
                \<lparr>ev_name = ''get'', ev_rows = query_id_in table row_id id_subset\<rparr>) chunks))
            (subset ids subset_size))"

section \<open>Domain model: \<open>app/plasmomapper/models.py\<close>\<close>

text \<open>
  Measured quantities (peak heights, ratios, sizes, thresholds, probabilities) are Python
  numbers. They are modelled as rationals, with exact arithmetic: the order and the
  formulas are those of the source, the rounding of floating point is not represented.
\<close>

subsection \<open>Per-locus parameters\<close>

record peak_scanner =
  scanning_method :: string
  maxima_window :: int
  argrelmax_window :: int
  trace_smoothing_window :: int
  trace_smoothing_order :: int
  tophat_factor :: rat
  cwt_min_width :: int
  cwt_max_width :: int
  min_snr :: rat
  noise_perc :: rat

record project_locus_params = peak_scanner +
  lp_id :: int
  lp_locus_id :: int
  lp_project_id :: int
  min_peak_height :: int
  max_peak_height :: int
  min_peak_height_ratio :: rat
  max_bleedthrough :: rat
  max_crosstalk :: rat
  min_peak_distance :: rat
  scanning_parameters_stale :: bool
  filter_parameters_stale :: bool

record artifact_estimator_locus_params = project_locus_params +
  max_secondary_relative_peak_height :: rat
  min_artifact_peak_frequency :: int

record genotyping_locus_params = project_locus_params +
  soft_artifact_sd_limit :: rat
  hard_artifact_sd_limit :: rat
  offscale_threshold :: rat
  bleedthrough_filter_limit :: rat
  crosstalk_filter_limit :: rat
  relative_peak_height_limit :: rat
  absolute_peak_height_limit :: rat
  failure_threshold :: rat

record bin_estimator_locus_params = project_locus_params +
  min_peak_frequency :: int
  default_bin_buffer :: rat

text \<open>The key lists of the properties \<open>filter_parameters\<close> and \<open>scanning_parameters\<close>.\<close>

definition filter_parameters_keys :: "string list" where
  "filter_parameters_keys =
     [''min_peak_height'', ''max_peak_height'', ''min_peak_height_ratio'',
      ''max_bleedthrough'', ''max_crosstalk'', ''min_peak_distance'']"

definition scanning_parameters_keys :: "string list" where
  "scanning_parameters_keys =
     [''scanning_method'', ''maxima_window'', ''argrelmax_window'',
      ''trace_smoothing_window'', ''trace_smoothing_order'', ''tophat_factor'',
      ''cwt_min_width'', ''cwt_max_width'', ''min_snr'', ''noise_perc'']"

subsection \<open>\<open>params_changed\<close> and \<open>stale_parameters\<close>\<close>

text \<open>
  What \<open>params_changed\<close> reads of the persistence layer's instance state: the
  \<open>modified\<close> mark and, for every mapped attribute, its key, whether its
  implementation has \<open>get_history\<close> and \<open>get_collection\<close>, and the history triple
  that \<open>get_history\<close> returns.
\<close>

record 'v attribute =
  attr_key :: string
  has_get_history :: bool
  has_get_collection :: bool
  added :: "'v list"
  unchanged :: "'v list"
  deleted :: "'v list"

record 'v instance_state =
  modified :: bool
  manager_attributes :: "'v attribute list"

text \<open>The \<open>for ... else\<close> loop: the first examined attribute with a change returns True.\<close>

fun attributes_changed :: "'v attribute list \<Rightarrow> string list \<Rightarrow> bool" where
  "attributes_changed [] params = False"
| "attributes_changed (attr # attrs) params =
     (if \<not> has_get_history attr \<or> has_get_collection attr \<or> attr_key attr \<notin> set params
      then attributes_changed attrs params
      else if added attr \<noteq> [] \<or> deleted attr \<noteq> [] then True
      else attributes_changed attrs params)"

definition params_changed :: "'v instance_state \<Rightarrow> string list \<Rightarrow> bool" where
  "params_changed state params =
     (if \<not> modified state then False
      else attributes_changed (manager_attributes state) params)"

text \<open>
  The \<open>before_update\<close> listener, registered for \<open>ProjectLocusParams\<close> and for each of
  its three subclasses. It works on the fields of the base class, so the model takes any
  extension of the base record.
\<close>

definition stale_parameters ::
  "'v instance_state \<Rightarrow> 'z project_locus_params_scheme \<Rightarrow> 'z project_locus_params_scheme" where
  "stale_parameters state target =
     (let target1 = (if params_changed state filter_parameters_keys
                     then target\<lparr>filter_parameters_stale := True\<rparr> else target)
      in if params_changed state scanning_parameters_keys
         then target1\<lparr>scanning_parameters_stale := True\<rparr> else target1)"

subsection \<open>Peaks and annotation rows\<close>

text \<open>
  A peak record with the keys the modelled functions read. \<open>flags\<close> is the peak's
  dictionary of flags, \<open>bin_id\<close> is \<open>None\<close> while the peak is in no bin.
\<close>

record peak =
  peak_index :: int
  peak_height :: rat
  relative_peak_height :: rat
  bleedthrough_ratio :: rat
  crosstalk_ratio :: rat
  artifact_contribution :: rat
  artifact_error :: rat
  in_bin :: bool
  bin_id :: "int option"
  flags :: "(string \<times> bool) list"
  probability :: rat

text \<open>
  A \<open>ProjectChannelAnnotations\<close> row joined with its channel, the channel's well and
  the well's ladder. \<open>annotated_peaks\<close> is nullable.
\<close>

record channel_annotation =
  ca_id :: int
  ca_project_id :: int
  ca_sample_id :: int
  ca_locus_id :: int
  sizing_quality :: rat
  unusable_sq_limit :: rat
  ca_annotated_peaks :: "peak list option"

record sample_annotation =
  sa_id :: int
  sa_sample_id :: int
  sa_project_id :: int
  moi :: nat

record locus_annotation =
  la_id :: int
  sample_annotations_id :: int
  la_locus_id :: int
  la_annotated_peaks :: "peak list"
  reference_run_id :: "int option"
  alleles :: "(string \<times> bool) list"
  la_flags :: "(string \<times> bool) list"

record database =
  locus_params_tbl :: "genotyping_locus_params list"
  channel_annotations_tbl :: "channel_annotation list"
  sample_annotations_tbl :: "sample_annotation list"
  locus_annotations_tbl :: "locus_annotation list"

record genotyping_project =
  project_id :: int
  probability_threshold :: rat

text \<open>\<open>Query.one()\<close>: exactly one row, or an exception.\<close>

definition get_locus_parameters ::
  "database \<Rightarrow> genotyping_project \<Rightarrow> int \<Rightarrow> error + genotyping_locus_params" where
  "get_locus_parameters db self locus_id =
     (case filter (\<lambda>r. lp_locus_id r = locus_id \<and> lp_project_id r = project_id self)
             (locus_params_tbl db) of
        [] \<Rightarrow> Inl NoResultFound
      | [r] \<Rightarrow> Inr r
      | _ \<Rightarrow> Inl MultipleResultsFound)"

subsection \<open>\<open>GenotypingProject.get_best_run\<close>\<close>

definition qualifying_peaks :: "genotyping_locus_params \<Rightarrow> peak list \<Rightarrow> peak list" where
  "qualifying_peaks locus_params ps =
     filter (\<lambda>y. peak_height y < offscale_threshold locus_params \<and> in_bin y) ps"

text \<open>\<open>max(peaks, key=lambda x: x['peak_height'])\<close>: the first peak of maximal height.\<close>

fun max_by_height :: "peak \<Rightarrow> peak list \<Rightarrow> peak" where
  "max_by_height m [] = m"
| "max_by_height m (x # xs) =
     max_by_height (if peak_height m < peak_height x then x else m) xs"

text \<open>
  The height compared for one annotation: that of its tallest qualifying peak, or of the
  stand-in \<open>{'peak_height': 0}\<close> when it has none.
\<close>

definition max_peak_height_of :: "genotyping_locus_params \<Rightarrow> peak list \<Rightarrow> rat" where
  "max_peak_height_of locus_params ps =
     (case qualifying_peaks locus_params ps of
        [] \<Rightarrow> 0
      | x # xs \<Rightarrow> peak_height (max_by_height x xs))"

text \<open>\<open>if not annotation.annotated_peaks: annotation.annotated_peaks = []\<close>\<close>

definition default_peaks :: "channel_annotation \<Rightarrow> channel_annotation" where
  "default_peaks annotation =
     (case ca_annotated_peaks annotation of
        None \<Rightarrow> annotation\<lparr>ca_annotated_peaks := Some []\<rparr>
      | Some ps \<Rightarrow> annotation)"

definition peaks_of :: "channel_annotation \<Rightarrow> peak list" where
  "peaks_of annotation = (case ca_annotated_peaks annotation of None \<Rightarrow> [] | Some ps \<Rightarrow> ps)"

fun best_run_loop ::
  "genotyping_locus_params \<Rightarrow> channel_annotation option \<Rightarrow> channel_annotation list
     \<Rightarrow> channel_annotation option" where
  "best_run_loop locus_params best_annotation [] = best_annotation"
| "best_run_loop locus_params best_annotation (a # rest) =
     (let annotation = default_peaks a in
      case best_annotation of
        None \<Rightarrow> best_run_loop locus_params (Some annotation) rest
      | Some best \<Rightarrow>
          if max_peak_height_of locus_params (peaks_of best)
               < max_peak_height_of locus_params (peaks_of annotation)
          then best_run_loop locus_params (Some annotation) rest
          else best_run_loop locus_params (Some best) rest)"

definition usable_runs :: "database \<Rightarrow> genotyping_project \<Rightarrow> int \<Rightarrow> int \<Rightarrow> channel_annotation list" where
  "usable_runs db self sample_id locus_id =
     filter (\<lambda>x. sizing_quality x < unusable_sq_limit x)
       (filter (\<lambda>x. ca_project_id x = project_id self \<and> ca_sample_id x = sample_id
                    \<and> ca_locus_id x = locus_id)
          (channel_annotations_tbl db))"

definition get_best_run ::
  "database \<Rightarrow> genotyping_project \<Rightarrow> int \<Rightarrow> int \<Rightarrow> error + channel_annotation option" where
  "get_best_run db self sample_id locus_id =
     bind_result (get_locus_parameters db self locus_id)
       (\<lambda>locus_params.
          Inr (best_run_loop locus_params None (usable_runs db self sample_id locus_id)))"


subsection \<open>\<open>GenotypingProject.analyze_samples\<close>\<close>

text \<open>\<open>str(n)\<close> for the keys of the \<open>alleles\<close> dictionary.\<close>

fun str_nat :: "nat \<Rightarrow> string" where
  "str_nat n =
     (if n < 10 then [char_of (48 + n)]
      else str_nat (n div 10) @ [char_of (48 + n mod 10)])"

definition str_int :: "int \<Rightarrow> string" where
  "str_int i = (if i < 0 then CHR ''-'' # str_nat (nat (- i)) else str_nat (nat i))"

definition str_bin_id :: "int option \<Rightarrow> string" where
  "str_bin_id b = (case b of None \<Rightarrow> ''None'' | Some i \<Rightarrow> str_int i)"

text \<open>\<open>not any(peak['flags'].values())\<close>\<close>

definition unflagged :: "peak \<Rightarrow> bool" where
  "unflagged p = (\<not> list_ex snd (flags p))"

text \<open>
  The body of the loop over the copied peaks: the \<open>flags\<close> dictionary is assigned
  afresh and its four entries are then set from the thresholds.
\<close>

definition stamp_flags :: "genotyping_locus_params \<Rightarrow> peak \<Rightarrow> peak" where
  "stamp_flags locus_params p =
     (let f0 = [(''below_relative_threshold'', False), (''bleedthrough'', False),
                (''crosstalk'', False), (''artifact'', False)];
          f1 = (if relative_peak_height p < relative_peak_height_limit locus_params
                then AList.update ''below_relative_threshold'' True f0 else f0);
          adjusted_peak_height =
            peak_height p - artifact_contribution p
              - artifact_error p * hard_artifact_sd_limit locus_params;
          f2 = (if adjusted_peak_height < absolute_peak_height_limit locus_params
                then AList.update ''artifact'' True f1 else f1);
          f3 = (if bleedthrough_filter_limit locus_params < bleedthrough_ratio p
                   \<or> offscale_threshold locus_params < peak_height p * bleedthrough_ratio p
                then AList.update ''bleedthrough'' True f2 else f2);
          f4 = (if crosstalk_filter_limit locus_params < crosstalk_ratio p
                   \<or> offscale_threshold locus_params < peak_height p * crosstalk_ratio p
                then AList.update ''crosstalk'' True f3 else f3)
      in p\<lparr>flags := f4\<rparr>)"

definition is_offscale :: "genotyping_locus_params \<Rightarrow> peak \<Rightarrow> bool" where
  "is_offscale locus_params x =
     (offscale_threshold locus_params < peak_height x
      \<or> offscale_threshold locus_params < peak_height x * bleedthrough_ratio x
      \<or> offscale_threshold locus_params < peak_height x * crosstalk_ratio x)"

text \<open>The loop that sets \<open>alleles[str(peak['bin_id'])] = True\<close>.\<close>

definition call_allele :: "peak \<Rightarrow> (string \<times> bool) list \<Rightarrow> (string \<times> bool) list" where
  "call_allele p al =
     (if in_bin p \<and> unflagged p then AList.update (str_bin_id (bin_id p)) True al else al)"

text \<open>The branch of \<open>analyze_samples\<close> taken when a best run was found.\<close>

definition annotate_from_run ::
  "genotyping_locus_params \<Rightarrow> channel_annotation \<Rightarrow> locus_annotation \<Rightarrow> locus_annotation" where
  "annotate_from_run locus_params run la =
     (let peaks = map (stamp_flags locus_params) (peaks_of run);
          failure = (\<not> list_ex (\<lambda>x. failure_threshold locus_params < peak_height x) peaks);
          offscale = list_ex (is_offscale locus_params) peaks;
          fl = AList.update ''manual_curation'' False
                 (AList.update ''offscale'' offscale
                    (AList.update ''failure'' failure (la_flags la)));
          al0 = map (\<lambda>kv. (fst kv, False)) (alleles la);
          al = (if \<not> failure then fold call_allele peaks al0 else al0)
      in la\<lparr>reference_run_id := Some (ca_id run), la_annotated_peaks := peaks,
            la_flags := fl, alleles := al\<rparr>)"

text \<open>
  One iteration of the loop over the locus annotations; \<open>sa\<close> is the row reached
  through \<open>locus_annotation.sample_annotation\<close>.
\<close>

definition analyze_annotation ::
  "database \<Rightarrow> genotyping_project \<Rightarrow> genotyping_locus_params
     \<Rightarrow> locus_annotation \<times> sample_annotation \<Rightarrow> error + locus_annotation" where
  "analyze_annotation db self locus_params row =
     (let la = fst row; sa = snd row in
      bind_result (get_best_run db self (sa_sample_id sa) (la_locus_id la))
        (\<lambda>best. case best of
           Some run \<Rightarrow> Inr (annotate_from_run locus_params run la)
         | None \<Rightarrow> Inr (la\<lparr>reference_run_id := None, la_annotated_peaks := []\<rparr>)))"

text \<open>
  \<open>SampleLocusAnnotation.query.join(ProjectSampleAnnotations)\<close> restricted to the
  project, each row paired with the sample annotation it joins.
\<close>

definition project_locus_annotations ::
  "database \<Rightarrow> genotyping_project \<Rightarrow> (locus_annotation \<times> sample_annotation) list" where
  "project_locus_annotations db self =
     concat (map (\<lambda>la. map (\<lambda>sa. (la, sa))
                   (filter (\<lambda>sa. sa_id sa = sample_annotations_id la
                                  \<and> sa_project_id sa = project_id self)
                      (sample_annotations_tbl db)))
               (locus_annotations_tbl db))"

text \<open>
  \<open>analyze_samples\<close> mutates the rows its query returns; the model returns those rows
  as they are after the call, in the order of the query.
\<close>

definition locus_annotations_at ::
  "database \<Rightarrow> genotyping_project \<Rightarrow> int \<Rightarrow> (locus_annotation \<times> sample_annotation) list" where
  "locus_annotations_at db self locus_id =
     filter (\<lambda>row. la_locus_id (fst row) = locus_id) (project_locus_annotations db self)"

definition analyze_samples ::
  "database \<Rightarrow> genotyping_project \<Rightarrow> int \<Rightarrow> error + locus_annotation list" where
  "analyze_samples db self locus_id =
     bind_result (get_locus_parameters db self locus_id)
       (\<lambda>locus_params.
          map_result (analyze_annotation db self locus_params)
            (locus_annotations_at db self locus_id))"

subsection \<open>\<open>GenotypingProject.probabilistic_peak_annotation\<close>\<close>

text \<open>\<open>locus_annotation.flags['failure']\<close> raises \<open>KeyError\<close> when the key is absent.\<close>

definition failure_flag :: "locus_annotation \<Rightarrow> error + bool" where
  "failure_flag la =
     (case map_of (la_flags la) ''failure'' of None \<Rightarrow> Inl KeyError | Some f \<Rightarrow> Inr f)"

text \<open>
  The guard \<open>locus_annotation.annotated_peaks and not locus_annotation.flags['failure']\<close>;
  the flag is only looked up when the peak list is not empty.
\<close>

definition la_active :: "locus_annotation \<Rightarrow> error + bool" where
  "la_active la =
     (if la_annotated_peaks la = [] then Inr False
      else bind_result (failure_flag la) (\<lambda>f. Inr (\<not> f)))"



text \<open>
  The two counters of a cycle, \<open>locus_totals\<close> and \<open>allele_counts\<close>. Both are
  dictionaries with default 0 whose keys appear when they are first incremented, so a key
  is present exactly when its count is positive.
\<close>

type_synonym counts = "(int \<Rightarrow> nat) \<times> (int \<times> int option \<Rightarrow> nat)"

definition count_peak ::
  "rat \<Rightarrow> int \<Rightarrow> peak \<Rightarrow> (int \<times> int option \<Rightarrow> nat) \<Rightarrow> (int \<times> int option \<Rightarrow> nat)" where
  "count_peak threshold locus p cnt =
     (if in_bin p \<and> unflagged p \<and> threshold \<le> probability p
      then cnt((locus, bin_id p) := cnt (locus, bin_id p) + 1) else cnt)"

fun count_alleles :: "rat \<Rightarrow> locus_annotation list \<Rightarrow> counts \<Rightarrow> error + counts" where
  "count_alleles threshold [] c = Inr c"
| "count_alleles threshold (la # las) c =
     bind_result (la_active la)
       (\<lambda>act. count_alleles threshold las
          (if act
           then ((fst c)(la_locus_id la := fst c (la_locus_id la) + 1),
                 fold (count_peak threshold (la_locus_id la)) (la_annotated_peaks la) (snd c))
           else c))"

text \<open>
  \<open>allele_frequencies[locus][allele]\<close>: the count over \<open>float(locus_totals[locus])\<close>
  for the keys of \<open>allele_counts\<close>, and \<open>KeyError\<close> for any other allele.
\<close>

definition frequency_value :: "counts \<Rightarrow> int \<Rightarrow> int option \<Rightarrow> rat" where
  "frequency_value c locus allele = of_nat (snd c (locus, allele)) / of_nat (fst c locus)"

definition allele_frequency :: "counts \<Rightarrow> int \<Rightarrow> int option \<Rightarrow> error + rat" where
  "allele_frequency c locus allele =
     (if snd c (locus, allele) = 0 then Inl KeyError
      else Inr (frequency_value c locus allele))"

definition called_count :: "rat \<Rightarrow> locus_annotation \<Rightarrow> nat" where
  "called_count threshold la =
     length (filter (\<lambda>x. threshold \<le> probability x) (la_annotated_peaks la))"

text \<open>The first loop over a sample's locus annotations, which sets \<open>moi\<close>.\<close>

fun sample_moi :: "rat \<Rightarrow> locus_annotation list \<Rightarrow> nat \<Rightarrow> error + nat" where
  "sample_moi threshold [] m = Inr m"
| "sample_moi threshold (la # las) m =
     bind_result (la_active la)
       (\<lambda>act. sample_moi threshold las (if act then max m (called_count threshold la) else m))"

definition possible_artifact :: "genotyping_locus_params \<Rightarrow> peak \<Rightarrow> bool" where
  "possible_artifact locus_params x =
     (peak_height x - artifact_contribution x
        - artifact_error x * soft_artifact_sd_limit locus_params
      \<le> absolute_peak_height_limit locus_params)"

definition peak_freq :: "counts \<Rightarrow> int \<Rightarrow> peak \<Rightarrow> error + rat" where
  "peak_freq c locus x =
     bind_result (allele_frequency c locus (bin_id x)) (\<lambda>f. Inr (f * probability x))"

text \<open>The value stored in \<open>new_probs\<close> for one possible-artifact peak.\<close>

definition new_probability ::
  "counts \<Rightarrow> int \<Rightarrow> nat \<Rightarrow> peak list \<Rightarrow> peak \<Rightarrow> error + rat" where
  "new_probability c locus m all_peaks peak =
     (let other_peaks = filter (\<lambda>x. peak_index x \<noteq> peak_index peak) all_peaks in
      bind_result (peak_freq c locus peak)
        (\<lambda>this_peak_freq.
           bind_result (map_result (peak_freq c locus) other_peaks)
             (\<lambda>other_peak_freqs.
                let total_probability = (sum_list other_peak_freqs + this_peak_freq) ^ m
                in if total_probability = 0 then Inl ZeroDivisionError
                   else Inr ((total_probability - sum_list other_peak_freqs ^ m)
                               / total_probability))))"

text \<open>
  \<open>new_probs\<close> is a dictionary keyed by \<open>peak_index\<close>, filled in the order of the
  possible-artifact peaks: a later entry replaces an earlier one with the same key.
\<close>

definition new_probs_lookup :: "(int \<times> rat) list \<Rightarrow> int \<Rightarrow> rat option" where
  "new_probs_lookup new_probs idx = map_of (rev new_probs) idx"

text \<open>
  The second loop over the possible-artifact peaks assigns the new probabilities. The
  peaks are the dictionaries of \<open>annotated_peaks\<close> themselves, so the assignment is an
  update of the peak list at the positions that passed both filters.
\<close>

definition assign_probability ::
  "genotyping_locus_params \<Rightarrow> rat \<Rightarrow> (int \<times> rat) list \<Rightarrow> peak \<Rightarrow> peak" where
  "assign_probability locus_params threshold new_probs x =
     (if threshold < probability x \<and> possible_artifact locus_params x
      then (case new_probs_lookup new_probs (peak_index x) of
              Some v \<Rightarrow> x\<lparr>probability := v\<rparr>
            | None \<Rightarrow> x)
      else x)"

definition refine_annotation ::
  "database \<Rightarrow> genotyping_project \<Rightarrow> counts \<Rightarrow> nat \<Rightarrow> locus_annotation
     \<Rightarrow> error + locus_annotation \<times> bool" where
  "refine_annotation db self c m la =
     bind_result (get_locus_parameters db self (la_locus_id la))
       (\<lambda>locus_params.
          let threshold = probability_threshold self;
              peaks_copy = la_annotated_peaks la;
              all_peaks = filter (\<lambda>x. threshold < probability x) peaks_copy;
              possible_artifact_peaks = filter (possible_artifact locus_params) all_peaks
          in bind_result
               (map_result
                  (\<lambda>peak. bind_result (new_probability c (la_locus_id la) m all_peaks peak)
                             (\<lambda>v. Inr (peak_index peak, v)))
                  possible_artifact_peaks)
               (\<lambda>new_probs.
                  Inr (la\<lparr>la_annotated_peaks :=
                             map (assign_probability locus_params threshold new_probs) peaks_copy\<rparr>,
                       list_ex (\<lambda>peak. case new_probs_lookup new_probs (peak_index peak) of
                                          Some v \<Rightarrow> v < threshold | None \<Rightarrow> False)
                         possible_artifact_peaks)))"

text \<open>
  The body of the loop over the sample annotations. \<open>locus_annotation_dict[sa.id]\<close> is
  the sublist of the project's locus annotations with that \<open>sample_annotations_id\<close>; the
  rows are updated where they stand in the list.
\<close>

definition process_sample ::
  "database \<Rightarrow> genotyping_project \<Rightarrow> counts \<Rightarrow> locus_annotation list \<Rightarrow> sample_annotation
     \<Rightarrow> error + locus_annotation list \<times> sample_annotation \<times> bool" where
  "process_sample db self c las sa =
     bind_result
       (sample_moi (probability_threshold self)
          (filter (\<lambda>la. sample_annotations_id la = sa_id sa) las) 0)
       (\<lambda>m. bind_result
          (map_result
             (\<lambda>la. if sample_annotations_id la = sa_id sa
                    then bind_result (la_active la)
                           (\<lambda>act. if act then refine_annotation db self c m la
                                   else Inr (la, False))
                    else Inr (la, False))
             las)
          (\<lambda>rs. Inr (map fst rs, sa\<lparr>moi := m\<rparr>, list_ex snd rs)))"

fun process_samples ::
  "database \<Rightarrow> genotyping_project \<Rightarrow> counts \<Rightarrow> sample_annotation list \<Rightarrow> locus_annotation list
     \<Rightarrow> error + locus_annotation list \<times> sample_annotation list \<times> bool" where
  "process_samples db self c [] las = Inr (las, [], False)"
| "process_samples db self c (sa # sas) las =
     bind_result (process_sample db self c las sa)
       (\<lambda>r1. bind_result (process_samples db self c sas (fst r1))
          (\<lambda>r2. Inr (fst r2, fst (snd r1) # fst (snd r2), snd (snd r1) \<or> snd (snd r2))))"

text \<open>One pass of the \<open>while alleles_changed\<close> loop; the flag it returns is \<open>alleles_changed\<close>.\<close>

definition cycle ::
  "database \<Rightarrow> genotyping_project \<Rightarrow> sample_annotation list \<Rightarrow> locus_annotation list
     \<Rightarrow> error + locus_annotation list \<times> sample_annotation list \<times> bool" where
  "cycle db self sas las =
     bind_result (count_alleles (probability_threshold self) las (\<lambda>_. 0, \<lambda>_. 0))
       (\<lambda>c. process_samples db self c sas las)"








subsection \<open>\<open>ArtifactEstimator\<close>: breakpoints\<close>

record locus =
  loc_id :: int
  min_base_length :: int
  max_base_length :: int

record artifact_equation =
  sd :: rat
  r_squared :: rat
  slope :: rat
  intercept :: rat
  start_size :: rat
  end_size :: rat

record param_set =
  ps_start_size :: rat
  ps_end_size :: rat
  ps_method :: string

text \<open>
  An estimator with its equations and, through \<open>locus_artifact_estimator.locus\<close>, its
  locus. \<open>peak_data\<close> is only handed to the fit, so its type is left open.
\<close>

record 'd artifact_estimator =
  artifact_distance :: rat
  artifact_distance_buffer :: rat
  peak_data :: 'd
  artifact_equations :: "artifact_equation list"
  ae_locus :: locus

text \<open>
  Modelled from the spec: the method \<open>generate_estimating_equations\<close> of the base class
  \<open>AE.ArtifactEstimator\<close> (module \<open>artifact_estimator\<close>) is not part of the sources at
  hand. The specification says that for each \<open>{start_size, end_size, method}\<close> segment it
  discards prior equations and refits slope, intercept, sd and r squared over the peaks
  whose primary size falls in that segment. It is modelled as one equation per segment,
  carrying the bounds of the segment; the regression is the parameter \<open>fit\<close>, which
  returns \<open>(sd, r_squared, slope, intercept)\<close> for the peak data and one segment.
  \<open>fitted_equation\<close> is the equation fitted on one segment.
\<close>

definition fitted_equation ::
  "('d \<Rightarrow> param_set \<Rightarrow> rat \<times> rat \<times> rat \<times> rat) \<Rightarrow> 'd \<Rightarrow> param_set \<Rightarrow> artifact_equation" where
  "fitted_equation fit pd ps =
     \<lparr>sd = fst (fit pd ps), r_squared = fst (snd (fit pd ps)),
      slope = fst (snd (snd (fit pd ps))), intercept = snd (snd (snd (fit pd ps))),
      start_size = ps_start_size ps, end_size = ps_end_size ps\<rparr>"

definition AE_generate_estimating_equations ::
  "('d \<Rightarrow> param_set \<Rightarrow> rat \<times> rat \<times> rat \<times> rat) \<Rightarrow> 'd \<Rightarrow> param_set list \<Rightarrow> artifact_equation list" where
  "AE_generate_estimating_equations fit pd parameter_sets =
     map (fitted_equation fit pd) parameter_sets"

text \<open>
  The override in \<open>models.py\<close>: the old equations are deleted, and one
  \<open>ArtifactEquation\<close> row is appended for every equation the base class returns.
\<close>

definition generate_estimating_equations ::
  "('d \<Rightarrow> param_set \<Rightarrow> rat \<times> rat \<times> rat \<times> rat) \<Rightarrow> 'd artifact_estimator \<Rightarrow> param_set list
     \<Rightarrow> 'd artifact_estimator" where
  "generate_estimating_equations fit self parameter_sets =
     self\<lparr>artifact_equations :=
       [] @ map (\<lambda>ae. \<lparr>sd = sd ae, r_squared = r_squared ae, slope = slope ae,
                        intercept = intercept ae, start_size = start_size ae,
                        end_size = end_size ae\<rparr>)
              (AE_generate_estimating_equations fit (peak_data self) parameter_sets)\<rparr>"

text \<open>
  The entry of \<open>old_param_sets\<close> that \<open>add_breakpoint\<close> builds for one existing
  equation.
\<close>

definition param_set_of :: "artifact_equation \<Rightarrow> param_set" where
  "param_set_of eq =
     \<lparr>ps_start_size = start_size eq, ps_end_size = end_size eq, ps_method = ''TSR''\<rparr>"

text \<open>The body of the loop over \<open>old_param_sets\<close>: what one entry appends.\<close>

definition split_param_set :: "rat \<Rightarrow> param_set \<Rightarrow> param_set list" where
  "split_param_set breakpoint ps =
     (if ps_start_size ps < breakpoint \<and> breakpoint < ps_end_size ps
      then [\<lparr>ps_start_size = ps_start_size ps, ps_end_size = breakpoint, ps_method = ''TSR''\<rparr>,
            \<lparr>ps_start_size = breakpoint, ps_end_size = ps_end_size ps, ps_method = ''TSR''\<rparr>]
      else [ps])"

definition add_breakpoint ::
  "('d \<Rightarrow> param_set \<Rightarrow> rat \<times> rat \<times> rat \<times> rat) \<Rightarrow> 'd artifact_estimator \<Rightarrow> rat
     \<Rightarrow> 'd artifact_estimator" where
  "add_breakpoint fit self breakpoint =
     (let old_param_sets = map param_set_of (artifact_equations self);
          param_sets = concat (map (split_param_set breakpoint) old_param_sets)
      in generate_estimating_equations fit self param_sets)"

definition clear_breakpoints ::
  "('d \<Rightarrow> param_set \<Rightarrow> rat \<times> rat \<times> rat \<times> rat) \<Rightarrow> 'd artifact_estimator \<Rightarrow> 'd artifact_estimator" where
  "clear_breakpoints fit self =
     generate_estimating_equations fit self
       [\<lparr>ps_start_size = of_int (min_base_length (ae_locus self)),
         ps_end_size = of_int (max_base_length (ae_locus self)), ps_method = ''TSR''\<rparr>]"

text \<open>The bounds of an equation, as the pair \<open>(start_size, end_size)\<close>.\<close>

definition bounds :: "artifact_equation \<Rightarrow> rat \<times> rat" where
  "bounds eq = (start_size eq, end_size eq)"

subsection \<open>\<open>Channel.find_max_data_point\<close>\<close>

text \<open>
  What the method reads and writes: the channel's trace and cached maximum, its locus
  (optional), and its well's \<open>base_sizes\<close> and \<open>ladder_peak_indices\<close>. The ladder peak
  indices are scan positions, hence natural numbers.
\<close>

record channel =
  data :: "int list"
  max_data_point :: int
  ch_locus :: "locus option"
  base_sizes :: "rat list"
  ladder_peak_indices :: "nat list"

text \<open>
  The first loop advances \<open>j\<close> while the base size at the \<open>j\<close>-th ladder peak is below
  \<open>min_base_length\<close>. Both subscripts raise \<open>IndexError\<close> out of range.
\<close>

function find_ladder_start :: "rat list \<Rightarrow> nat list \<Rightarrow> rat \<Rightarrow> nat \<Rightarrow> error + nat" where
  "find_ladder_start sizes indices min_len j =
     (if j < length indices
      then (if indices ! j < length sizes
            then (if sizes ! (indices ! j) < min_len
                  then find_ladder_start sizes indices min_len (j + 1)
                  else Inr j)
            else Inl IndexError)
      else Inl IndexError)"
  by pat_completeness auto
termination
  by (relation "measure (\<lambda>(sizes, indices, min_len, j). length indices - j)") auto

declare find_ladder_start.simps [simp del]

text \<open>
  The second loop walks \<open>i\<close> upwards while the base size at \<open>i\<close> is below
  \<open>max_base_length\<close>, and raises the running maximum where the base size exceeds
  \<open>min_base_length\<close>.
\<close>

function scan_data_points ::
  "rat list \<Rightarrow> int list \<Rightarrow> rat \<Rightarrow> rat \<Rightarrow> nat \<Rightarrow> int \<Rightarrow> error + int" where
  "scan_data_points sizes trace min_len max_len i mx =
     (if i < length sizes
      then (if sizes ! i < max_len
            then (if i + 1 < length sizes
                  then (if min_len < sizes ! (i + 1)
                        then (if i + 1 < length trace
                              then scan_data_points sizes trace min_len max_len (i + 1)
                                     (if mx < trace ! (i + 1) then trace ! (i + 1) else mx)
                              else Inl IndexError)
                        else scan_data_points sizes trace min_len max_len (i + 1) mx)
                  else Inl IndexError)
            else Inr mx)
      else Inl IndexError)"
  by pat_completeness auto
termination
  by (relation "measure (\<lambda>(sizes, trace, min_len, max_len, i, mx). length sizes - i)") auto

declare scan_data_points.simps [simp del]

text \<open>
  \<open>ladder_peak_indices[j - 1]\<close>: for \<open>j = 0\<close> the subscript is \<open>-1\<close>, which in Python
  is the last element of the (non-empty) list.
\<close>

definition index_before :: "nat list \<Rightarrow> nat \<Rightarrow> nat" where
  "index_before indices j = (if j = 0 then last indices else indices ! (j - 1))"

definition find_max_data_point :: "channel \<Rightarrow> error + channel" where
  "find_max_data_point self =
     (case ch_locus self of
        None \<Rightarrow> Inr self
      | Some loc \<Rightarrow>
          if ladder_peak_indices self = [] then Inr self
          else
            (let indices = sort (ladder_peak_indices self) in
             bind_result
               (find_ladder_start (base_sizes self) indices (of_int (min_base_length loc)) 0)
               (\<lambda>j. bind_result
                  (scan_data_points (base_sizes self) (data self)
                     (of_int (min_base_length loc)) (of_int (max_base_length loc))
                     (index_before indices j) (max_data_point self))
                  (\<lambda>mx. Inr (self\<lparr>ladder_peak_indices := indices, max_data_point := mx\<rparr>)))))"

text \<open>
  \<open>add_locus\<close> assigns the result of \<open>Locus.query.get(locus_id)\<close>, which is
  \<open>None\<close> for an unknown id, and recomputes the cached maximum.
\<close>

definition add_locus :: "channel \<Rightarrow> locus option \<Rightarrow> error + channel" where
  "add_locus self loc = find_max_data_point (self\<lparr>ch_locus := loc\<rparr>)"

section \<open>Example data\<close>

text \<open>Concrete rows on which the theorems below are instantiated.\<close>

definition example_state :: "int instance_state" where
  "example_state = \<lparr>modified = True, manager_attributes =
      [\<lparr>attr_key = ''min_peak_height'', has_get_history = True, has_get_collection = False,
        added = [200], unchanged = [], deleted = [150]\<rparr>,
       \<lparr>attr_key = ''maxima_window'', has_get_history = True, has_get_collection = False,
        added = [], unchanged = [10], deleted = []\<rparr>]\<rparr>"

definition example_params :: genotyping_locus_params where
  "example_params = \<lparr>scanning_method = ''relmax'', maxima_window = 10, argrelmax_window = 6,
     trace_smoothing_window = 11, trace_smoothing_order = 7, tophat_factor = 5 / 1000,
     cwt_min_width = 4, cwt_max_width = 15, min_snr = 3, noise_perc = 13,
     lp_id = 1, lp_locus_id = 1, lp_project_id = 1,
     min_peak_height = 200, max_peak_height = 40000, min_peak_height_ratio = 0,
     max_bleedthrough = 4, max_crosstalk = 4, min_peak_distance = 2,
     scanning_parameters_stale = False, filter_parameters_stale = False,
     soft_artifact_sd_limit = 3, hard_artifact_sd_limit = 1, offscale_threshold = 32000,
     bleedthrough_filter_limit = 2, crosstalk_filter_limit = 2,
     relative_peak_height_limit = 1 / 100, absolute_peak_height_limit = 50,
     failure_threshold = 500\<rparr>"

definition example_locus :: locus where
  "example_locus = \<lparr>loc_id = 1, min_base_length = 100, max_base_length = 300\<rparr>"

definition example_equation :: artifact_equation where
  "example_equation = \<lparr>sd = 1, r_squared = 1, slope = 0, intercept = 0,
     start_size = 100, end_size = 300\<rparr>"

definition example_estimator :: "unit artifact_estimator" where
  "example_estimator = \<lparr>artifact_distance = - 1, artifact_distance_buffer = 1 / 2,
     peak_data = (), artifact_equations = [example_equation], ae_locus = example_locus\<rparr>"

definition example_fit :: "unit \<Rightarrow> param_set \<Rightarrow> rat \<times> rat \<times> rat \<times> rat" where
  "example_fit d ps = (1, 1, ps_end_size ps - ps_start_size ps, ps_start_size ps)"

definition example_channel_bad :: channel where
  "example_channel_bad = \<lparr>data = [7], max_data_point = 0, ch_locus = Some example_locus,
     base_sizes = [50], ladder_peak_indices = [0]\<rparr>"

definition example_channel :: channel where
  "example_channel = \<lparr>data = [1, 5, 9, 4], max_data_point = 0, ch_locus = Some example_locus,
     base_sizes = [50, 150, 250, 350], ladder_peak_indices = [2, 0]\<rparr>"

definition example_peak :: peak where
  "example_peak = \<lparr>peak_index = 1200, peak_height = 300, relative_peak_height = 1,
     bleedthrough_ratio = 0, crosstalk_ratio = 0, artifact_contribution = 0,
     artifact_error = 0, in_bin = True, bin_id = Some 5, flags = [],
     probability = 0\<rparr>"

definition example_run :: channel_annotation where
  "example_run = \<lparr>ca_id = 11, ca_project_id = 1, ca_sample_id = 7, ca_locus_id = 1,
     sizing_quality = 2, unusable_sq_limit = 10, ca_annotated_peaks = Some [example_peak]\<rparr>"

definition example_unusable_run :: channel_annotation where
  "example_unusable_run = \<lparr>ca_id = 12, ca_project_id = 1, ca_sample_id = 7, ca_locus_id = 1,
     sizing_quality = 10, unusable_sq_limit = 10,
     ca_annotated_peaks = Some [example_peak\<lparr>peak_height := 9000\<rparr>]\<rparr>"

definition example_sample_annotation :: sample_annotation where
  "example_sample_annotation = \<lparr>sa_id = 3, sa_sample_id = 7, sa_project_id = 1, moi = 0\<rparr>"

definition example_locus_annotation :: locus_annotation where
  "example_locus_annotation = \<lparr>la_id = 21, sample_annotations_id = 3, la_locus_id = 1,
     la_annotated_peaks = [], reference_run_id = None, alleles = [(''5'', True)],
     la_flags = [(''manual_curation'', True)]\<rparr>"

definition example_db :: database where
  "example_db = \<lparr>locus_params_tbl = [example_params],
     channel_annotations_tbl = [example_unusable_run, example_run],
     sample_annotations_tbl = [example_sample_annotation],
     locus_annotations_tbl = [example_locus_annotation]\<rparr>"

definition example_project :: genotyping_project where
  "example_project = \<lparr>project_id = 1, probability_threshold = 1 / 2\<rparr>"

definition example_main_peak :: peak where
  "example_main_peak = \<lparr>peak_index = 1200, peak_height = 5000, relative_peak_height = 1,
     bleedthrough_ratio = 0, crosstalk_ratio = 0, artifact_contribution = 0,
     artifact_error = 0, in_bin = True, bin_id = Some 5,
     flags = [(''below_relative_threshold'', False), (''bleedthrough'', False),
              (''crosstalk'', False), (''artifact'', False)],
     probability = 1\<rparr>"

definition example_stutter_peak :: peak where
  "example_stutter_peak = \<lparr>peak_index = 1170, peak_height = 100,
     relative_peak_height = 1 / 50, bleedthrough_ratio = 0, crosstalk_ratio = 0,
     artifact_contribution = 80, artifact_error = 10, in_bin = True, bin_id = Some 4,
     flags = [(''below_relative_threshold'', False), (''bleedthrough'', False),
              (''crosstalk'', False), (''artifact'', False)],
     probability = 1\<rparr>"

definition example_called_annotation :: locus_annotation where
  "example_called_annotation = \<lparr>la_id = 22, sample_annotations_id = 3, la_locus_id = 1,
     la_annotated_peaks = [example_stutter_peak, example_main_peak],
     reference_run_id = Some 11, alleles = [(''4'', True), (''5'', True)],
     la_flags = [(''failure'', False), (''offscale'', False), (''manual_curation'', False)]\<rparr>"


definition example_db_called :: database where
  "example_db_called = example_db\<lparr>locus_annotations_tbl := [example_called_annotation]\<rparr>"


section \<open>Properties of the event gateway\<close>

lemma subset_from_total:
  "0 < n \<Longrightarrow> \<exists>cs. subset_from l n i = Some cs \<and> concat cs = drop i l
      \<and> (\<forall>c\<in>set cs. length c \<le> n)
      \<and> length cs = (length l - i + n - 1) div n"
proof (induction "length l - i" arbitrary: i rule: less_induct)
  case less
  show ?case
  proof (cases "i < length l")
    case False
    then show ?thesis
      using less.prems by (subst subset_from.simps) simp
  next
    case True
    with less.prems have "length l - (i + n) < length l - i" by arith
    from less.hyps [OF this less.prems] obtain cs where
      cs: "subset_from l n (i + n) = Some cs" "concat cs = drop (i + n) l"
          "\<forall>c\<in>set cs. length c \<le> n"
          "length cs = (length l - (i + n) + n - 1) div n"
      by blast
    have step: "subset_from l n i = Some (take n (drop i l) # cs)"
      using True cs(1) by (subst subset_from.simps) simp
    have cat: "concat (take n (drop i l) # cs) = drop i l"
      using cs(2) by (simp add: add.commute [of i n] flip: drop_drop)
    have cnt: "length (take n (drop i l) # cs) = (length l - i + n - 1) div n"
    proof (cases "i + n < length l")
      case True
      define m where "m = length l - (i + n) + n - 1"
      have "length l - i + n - 1 = m + n"
        unfolding m_def using True less.prems by arith
      moreover have "(m + n) div n = Suc (m div n)"
        using less.prems by simp
      moreover have "length cs = m div n"
        using cs(4) by (simp only: m_def)
      ultimately show ?thesis by simp
    next
      case False
      then have "length l - (i + n) + n - 1 < n"
        using less.prems by arith
      then have zero: "length cs = 0" using cs(4) by simp
      have "n \<le> length l - i + n - 1" "length l - i + n - 1 < n + n"
        using False True less.prems by arith+
      then have "(length l - i + n - 1) div n = 1"
        by (metis One_nat_def div_nat_eqI mult.right_neutral mult_Suc_right)
      then show ?thesis using zero by simp
    qed
    show ?thesis
      using step cat cnt cs(3) by simp
  qed
qed

lemma ceiling_div_384: "int ((n + 383) div 384) = \<lceil>real n / 384\<rceil>"
  by linarith

lemma length_filter_mem_le:
  assumes "distinct (map f xs)"
  shows "length (filter (\<lambda>r. f r \<in> set c) xs) \<le> length c"
proof -
  have d: "distinct (map f (filter (\<lambda>r. f r \<in> set c) xs))"
    using assms by (simp add: distinct_map_filter)
  have "length (filter (\<lambda>r. f r \<in> set c) xs) = length (map f (filter (\<lambda>r. f r \<in> set c) xs))"
    by simp
  also have "\<dots> = card (set (map f (filter (\<lambda>r. f r \<in> set c) xs)))"
    using d by (simp only: distinct_card)
  also have "\<dots> \<le> card (set c)"
    by (rule card_mono) auto
  also have "\<dots> \<le> length c" by (rule card_length)
  finally show ?thesis .
qed

text \<open>
  Claim C7. For a get request whose payload yields the id list \<open>ids\<close>, with the default
  subset size 384 and a table whose ids are a primary key: \<open>subset\<close> finishes, the
  concatenation of its chunks is \<open>ids\<close>, the handler publishes exactly
  \<open>\<lceil>length ids / 384\<rceil>\<close> events, each a \<open>get\<close> event with at most 384 rows, and the
  ids of all returned rows are the requested ids that have a row in the table.
\<close>

theorem base_get_chunks:
  assumes ids: "extract_ids js = Inr ids"
      and pk: "distinct (map row_id table)"
  shows "\<exists>chunks evs.
           subset ids 384 = Some chunks \<and> concat chunks = ids
         \<and> base_get table row_id 384 js = Some (Inr evs)
         \<and> int (length evs) = \<lceil>real (length ids) / 384\<rceil>
         \<and> (\<forall>e\<in>set evs. ev_name e = ''get'' \<and> length (ev_rows e) \<le> 384)
         \<and> (\<Union>e\<in>set evs. row_id ` set (ev_rows e)) = set ids \<inter> row_id ` set table"
proof -
  obtain cs where cs: "subset_from ids 384 0 = Some cs" "concat cs = drop 0 ids"
      "\<forall>c\<in>set cs. length c \<le> 384" "length cs = (length ids - 0 + 384 - 1) div 384"
    using subset_from_total [of 384 ids 0] by auto
  define evs where
    "evs = map (\<lambda>c. \<lparr>ev_name = ''get'', ev_rows = query_id_in table row_id c\<rparr>) cs"
  have sub: "subset ids 384 = Some cs" using cs(1) by (simp add: subset_def)
  have bg: "base_get table row_id 384 js = Some (Inr evs)"
    by (simp add: base_get_def ids sub evs_def)
  have len: "int (length evs) = \<lceil>real (length ids) / 384\<rceil>"
    using cs(4) ceiling_div_384 [of "length ids"] by (simp add: evs_def)
  have each: "\<forall>e\<in>set evs. ev_name e = ''get'' \<and> length (ev_rows e) \<le> 384"
  proof
    fix e assume "e \<in> set evs"
    then obtain c where c: "c \<in> set cs"
        "e = \<lparr>ev_name = ''get'', ev_rows = query_id_in table row_id c\<rparr>"
      by (auto simp: evs_def)
    have "length (query_id_in table row_id c) \<le> length c"
      unfolding query_id_in_def by (rule length_filter_mem_le [OF pk])
    then show "ev_name e = ''get'' \<and> length (ev_rows e) \<le> 384"
      using c cs(3) by force
  qed
  have "set ids = (\<Union>c\<in>set cs. set c)"
    using cs(2) by (metis drop0 set_concat)
  then have un: "(\<Union>e\<in>set evs. row_id ` set (ev_rows e)) = set ids \<inter> row_id ` set table"
    by (auto simp: evs_def query_id_in_def)
  show ?thesis using sub cs(2) bg len each un by auto
qed

theorem base_get_chunks_witness:
  "extract_ids (JObject [(''id'', JList [JInt 1, JStr '' 2'', JInt 5])]) = Inr [1, 2, 5]
   \<and> distinct (map (\<lambda>r. r) [1, 2, 3 :: int])
   \<and> (\<exists>chunks evs.
           subset [1, 2, 5 :: int] 384 = Some chunks \<and> concat chunks = [1, 2, 5]
         \<and> base_get [1, 2, 3 :: int] (\<lambda>r. r) 384
              (JObject [(''id'', JList [JInt 1, JStr '' 2'', JInt 5])]) = Some (Inr evs)
         \<and> int (length evs) = \<lceil>real (length [1, 2, 5 :: int]) / 384\<rceil>
         \<and> (\<forall>e\<in>set evs. ev_name e = ''get'' \<and> length (ev_rows e) \<le> 384)
         \<and> (\<Union>e\<in>set evs. (\<lambda>r. r) ` set (ev_rows e))
             = set [1, 2, 5] \<inter> (\<lambda>r. r) ` set [1, 2, 3 :: int])"
proof -
  have h1: "extract_ids (JObject [(''id'', JList [JInt 1, JStr '' 2'', JInt 5])]) = Inr [1, 2, 5]"
    by code_simp
  have h2: "distinct (map (\<lambda>r. r) [1, 2, 3 :: int])" by simp
  show ?thesis
    using h1 h2 base_get_chunks [OF h1 h2] by blast
qed

text \<open>
  Claim C6. The claim has \<open>extract_ids\<close> fail with "Field id not valid" whenever the
  \<open>id\<close> field is missing or holds a value that does not parse as an integer. Evaluated on
  a payload without the key, the function raises \<open>KeyError\<close> instead, since the
  subscript stands before the \<open>try\<close> block; and on a list holding \<open>None\<close> it raises
  \<open>TypeError\<close>, which the handler for \<open>ValueError\<close> does not catch.
\<close>

theorem extract_ids_uncaught:
  "extract_ids (JObject []) = Inl KeyError
   \<and> extract_ids (JObject [(''id'', JList [JNull])]) = Inl TypeError"
  by (simp add: extract_ids_def map_int_def catch_ValueError_def bind_result_def)

section \<open>Properties of the staleness listener\<close>

lemma attributes_changed_iff:
  "attributes_changed attrs params \<longleftrightarrow>
     (\<exists>a\<in>set attrs. has_get_history a \<and> \<not> has_get_collection a \<and> attr_key a \<in> set params
        \<and> (added a \<noteq> [] \<or> deleted a \<noteq> []))"
  by (induction attrs) auto

text \<open>
  Claim C5. When a row of \<open>ProjectLocusParams\<close> or of one of its variants is flushed
  with a change to a column attribute (the state is marked modified and the history of the
  attribute has an added or a deleted value), the listener leaves
  \<open>filter_parameters_stale\<close> true if the attribute is one of the filter parameters, and
  \<open>scanning_parameters_stale\<close> true if it is one of the scanning parameters.
\<close>

theorem stale_parameters_sets_flags:
  assumes "modified state"
      and "a \<in> set (manager_attributes state)"
      and "has_get_history a" and "\<not> has_get_collection a"
      and "added a \<noteq> [] \<or> deleted a \<noteq> []"
  shows "(attr_key a \<in> set filter_parameters_keys
            \<longrightarrow> filter_parameters_stale (stale_parameters state target))
       \<and> (attr_key a \<in> set scanning_parameters_keys
            \<longrightarrow> scanning_parameters_stale (stale_parameters state target))"
  using assms
  by (auto simp: stale_parameters_def params_changed_def attributes_changed_iff Let_def)

theorem stale_parameters_sets_flags_witness:
  "modified example_state
   \<and> hd (manager_attributes example_state) \<in> set (manager_attributes example_state)
   \<and> has_get_history (hd (manager_attributes example_state))
   \<and> \<not> has_get_collection (hd (manager_attributes example_state))
   \<and> added (hd (manager_attributes example_state)) = [200]
   \<and> deleted (hd (manager_attributes example_state)) = [150]
   \<and> attr_key (hd (manager_attributes example_state)) \<in> set filter_parameters_keys
   \<and> filter_parameters_stale (stale_parameters example_state example_params)
   \<and> \<not> scanning_parameters_stale (stale_parameters example_state example_params)"
proof -
  have h: "modified example_state"
    "hd (manager_attributes example_state) \<in> set (manager_attributes example_state)"
    "has_get_history (hd (manager_attributes example_state))"
    "\<not> has_get_collection (hd (manager_attributes example_state))"
    "added (hd (manager_attributes example_state)) \<noteq> []
       \<or> deleted (hd (manager_attributes example_state)) \<noteq> []"
    "attr_key (hd (manager_attributes example_state)) \<in> set filter_parameters_keys"
    by (simp_all add: example_state_def filter_parameters_keys_def)
  have n: "\<not> scanning_parameters_stale (stale_parameters example_state example_params)"
    by (simp add: stale_parameters_def params_changed_def example_state_def example_params_def
          filter_parameters_keys_def scanning_parameters_keys_def)
  have v: "added (hd (manager_attributes example_state)) = [200]"
    "deleted (hd (manager_attributes example_state)) = [150]"
    by (simp_all add: example_state_def)
  show ?thesis
    using h n v stale_parameters_sets_flags [OF h(1-5), of example_params] by blast
qed

section \<open>Properties of the artifact estimator's breakpoints\<close>

lemma equations_generate:
  "artifact_equations (generate_estimating_equations fit self pss)
     = map (fitted_equation fit (peak_data self)) pss"
  by (simp add: generate_estimating_equations_def AE_generate_estimating_equations_def
        fitted_equation_def)

lemma generate_keeps:
  "peak_data (generate_estimating_equations fit self pss) = peak_data self
   \<and> ae_locus (generate_estimating_equations fit self pss) = ae_locus self"
  by (simp add: generate_estimating_equations_def)

lemma bounds_fitted:
  "bounds (fitted_equation fit pd ps) = (ps_start_size ps, ps_end_size ps)"
  by (simp add: bounds_def fitted_equation_def)

lemma bounds_fitted_param_set_of:
  "map bounds (map (fitted_equation fit pd) (map param_set_of eqs)) = map bounds eqs"
  by (induction eqs) (simp_all add: bounds_def fitted_equation_def param_set_of_def)

lemma concat_split_outside:
  "\<forall>x\<in>set eqs. \<not> (start_size x < b \<and> b < end_size x) \<Longrightarrow>
   concat (map (split_param_set b) (map param_set_of eqs)) = map param_set_of eqs"
  by (induction eqs) (auto simp: split_param_set_def param_set_of_def)

lemma split_param_set_inside:
  "start_size e < b \<Longrightarrow> b < end_size e \<Longrightarrow>
   split_param_set b (param_set_of e)
     = [\<lparr>ps_start_size = start_size e, ps_end_size = b, ps_method = ''TSR''\<rparr>,
        \<lparr>ps_start_size = b, ps_end_size = end_size e, ps_method = ''TSR''\<rparr>]"
  by (simp add: split_param_set_def param_set_of_def)

text \<open>
  Claim C8. If the breakpoint \<open>b\<close> lies strictly inside exactly one segment \<open>e\<close> of an
  estimator's equations, \<open>add_breakpoint\<close> replaces that segment's parameter set by
  \<open>[start_size e, b)\<close> and \<open>[b, end_size e)\<close>, leaves every other segment's bounds as
  they were, and refits: the equations afterwards are exactly the equations fitted from
  the estimator's peak data on the new list of segments. In particular, from a single
  equation spanning the locus's \<open>[min_base_length, max_base_length]\<close> it yields exactly
  the two equations fitted on the two parts of the range at \<open>b\<close>, and
  \<open>clear_breakpoints\<close> afterwards leaves exactly the one equation fitted on the full
  range.
\<close>

theorem add_breakpoint_splits:
  assumes eqs: "artifact_equations self = pre @ [e] @ post"
      and inside: "start_size e < b" "b < end_size e"
      and others: "\<forall>x\<in>set (pre @ post). \<not> (start_size x < b \<and> b < end_size x)"
  shows "artifact_equations (add_breakpoint fit self b)
           = map (fitted_equation fit (peak_data self))
               (map param_set_of pre
                @ [\<lparr>ps_start_size = start_size e, ps_end_size = b, ps_method = ''TSR''\<rparr>,
                   \<lparr>ps_start_size = b, ps_end_size = end_size e, ps_method = ''TSR''\<rparr>]
                @ map param_set_of post)
       \<and> map bounds (artifact_equations (add_breakpoint fit self b))
           = map bounds pre @ [(start_size e, b), (b, end_size e)] @ map bounds post
       \<and> (pre = [] \<and> post = []
            \<and> start_size e = of_int (min_base_length (ae_locus self))
            \<and> end_size e = of_int (max_base_length (ae_locus self))
          \<longrightarrow> artifact_equations (add_breakpoint fit self b)
                = [fitted_equation fit (peak_data self)
                     \<lparr>ps_start_size = of_int (min_base_length (ae_locus self)),
                      ps_end_size = b, ps_method = ''TSR''\<rparr>,
                   fitted_equation fit (peak_data self)
                     \<lparr>ps_start_size = b,
                      ps_end_size = of_int (max_base_length (ae_locus self)),
                      ps_method = ''TSR''\<rparr>]
            \<and> map bounds (artifact_equations (add_breakpoint fit self b))
                = [(of_int (min_base_length (ae_locus self)), b),
                   (b, of_int (max_base_length (ae_locus self)))]
            \<and> artifact_equations (clear_breakpoints fit (add_breakpoint fit self b))
                = [fitted_equation fit (peak_data self)
                     \<lparr>ps_start_size = of_int (min_base_length (ae_locus self)),
                      ps_end_size = of_int (max_base_length (ae_locus self)),
                      ps_method = ''TSR''\<rparr>]
            \<and> map bounds (artifact_equations (clear_breakpoints fit (add_breakpoint fit self b)))
                = [(of_int (min_base_length (ae_locus self)),
                    of_int (max_base_length (ae_locus self)))])"
proof -
  have p1: "\<forall>x\<in>set pre. \<not> (start_size x < b \<and> b < end_size x)"
   and p2: "\<forall>x\<in>set post. \<not> (start_size x < b \<and> b < end_size x)"
    using others by auto
  have segs: "concat (map (split_param_set b) (map param_set_of (pre @ [e] @ post)))
      = map param_set_of pre
        @ [\<lparr>ps_start_size = start_size e, ps_end_size = b, ps_method = ''TSR''\<rparr>,
           \<lparr>ps_start_size = b, ps_end_size = end_size e, ps_method = ''TSR''\<rparr>]
        @ map param_set_of post"
    using concat_split_outside [OF p1] concat_split_outside [OF p2]
          split_param_set_inside [OF inside]
    by simp
  have main: "artifact_equations (add_breakpoint fit self b)
           = map (fitted_equation fit (peak_data self))
               (map param_set_of pre
                @ [\<lparr>ps_start_size = start_size e, ps_end_size = b, ps_method = ''TSR''\<rparr>,
                   \<lparr>ps_start_size = b, ps_end_size = end_size e, ps_method = ''TSR''\<rparr>]
                @ map param_set_of post)"
    unfolding add_breakpoint_def Let_def equations_generate eqs segs ..
  have bnd: "map bounds (artifact_equations (add_breakpoint fit self b))
           = map bounds pre @ [(start_size e, b), (b, end_size e)] @ map bounds post"
    unfolding main
    using bounds_fitted_param_set_of [of fit "peak_data self" pre]
          bounds_fitted_param_set_of [of fit "peak_data self" post]
    by (simp add: bounds_fitted)
  have keep: "peak_data (add_breakpoint fit self b) = peak_data self"
             "ae_locus (add_breakpoint fit self b) = ae_locus self"
    by (simp_all add: add_breakpoint_def Let_def generate_keeps)
  have clr: "artifact_equations (clear_breakpoints fit (add_breakpoint fit self b))
                = [fitted_equation fit (peak_data self)
                     \<lparr>ps_start_size = of_int (min_base_length (ae_locus self)),
                      ps_end_size = of_int (max_base_length (ae_locus self)),
                      ps_method = ''TSR''\<rparr>]"
    by (simp add: clear_breakpoints_def equations_generate keep)
  have clrb: "map bounds (artifact_equations (clear_breakpoints fit (add_breakpoint fit self b)))
                = [(of_int (min_base_length (ae_locus self)),
                    of_int (max_base_length (ae_locus self)))]"
    unfolding clr by (simp add: bounds_fitted)
  show ?thesis
  proof (intro conjI impI)
    show "artifact_equations (add_breakpoint fit self b)
           = map (fitted_equation fit (peak_data self))
               (map param_set_of pre
                @ [\<lparr>ps_start_size = start_size e, ps_end_size = b, ps_method = ''TSR''\<rparr>,
                   \<lparr>ps_start_size = b, ps_end_size = end_size e, ps_method = ''TSR''\<rparr>]
                @ map param_set_of post)"
      by (rule main)
    show "map bounds (artifact_equations (add_breakpoint fit self b))
           = map bounds pre @ [(start_size e, b), (b, end_size e)] @ map bounds post"
      by (rule bnd)
  next
    assume a: "pre = [] \<and> post = []
            \<and> start_size e = of_int (min_base_length (ae_locus self))
            \<and> end_size e = of_int (max_base_length (ae_locus self))"
    show "artifact_equations (add_breakpoint fit self b)
                = [fitted_equation fit (peak_data self)
                     \<lparr>ps_start_size = of_int (min_base_length (ae_locus self)),
                      ps_end_size = b, ps_method = ''TSR''\<rparr>,
                   fitted_equation fit (peak_data self)
                     \<lparr>ps_start_size = b,
                      ps_end_size = of_int (max_base_length (ae_locus self)),
                      ps_method = ''TSR''\<rparr>]"
      using main a by simp
    show "map bounds (artifact_equations (add_breakpoint fit self b))
                = [(of_int (min_base_length (ae_locus self)), b),
                   (b, of_int (max_base_length (ae_locus self)))]"
      using bnd a by simp
    show "artifact_equations (clear_breakpoints fit (add_breakpoint fit self b))
                = [fitted_equation fit (peak_data self)
                     \<lparr>ps_start_size = of_int (min_base_length (ae_locus self)),
                      ps_end_size = of_int (max_base_length (ae_locus self)),
                      ps_method = ''TSR''\<rparr>]"
      by (rule clr)
    show "map bounds (artifact_equations (clear_breakpoints fit (add_breakpoint fit self b)))
                = [(of_int (min_base_length (ae_locus self)),
                    of_int (max_base_length (ae_locus self)))]"
      by (rule clrb)
  qed
qed

theorem add_breakpoint_splits_witness:
  "artifact_equations example_estimator = [] @ [example_equation] @ []
   \<and> start_size example_equation < 200 \<and> 200 < end_size example_equation
   \<and> artifact_equations (add_breakpoint example_fit example_estimator 200)
        = [\<lparr>sd = 1, r_squared = 1, slope = 100, intercept = 100,
            start_size = 100, end_size = 200\<rparr>,
           \<lparr>sd = 1, r_squared = 1, slope = 100, intercept = 200,
            start_size = 200, end_size = 300\<rparr>]
   \<and> map bounds (artifact_equations (add_breakpoint example_fit example_estimator 200))
        = [(100, 200), (200, 300)]
   \<and> artifact_equations
          (clear_breakpoints example_fit (add_breakpoint example_fit example_estimator 200))
        = [\<lparr>sd = 1, r_squared = 1, slope = 200, intercept = 100,
            start_size = 100, end_size = 300\<rparr>]
   \<and> map bounds (artifact_equations
          (clear_breakpoints example_fit (add_breakpoint example_fit example_estimator 200)))
        = [(100, 300)]"
proof -
  have h1: "artifact_equations example_estimator = [] @ [example_equation] @ []"
    by (simp add: example_estimator_def)
  have h2: "start_size example_equation < 200" and h3: "200 < end_size example_equation"
    by (simp_all add: example_equation_def)
  have h4: "\<forall>x\<in>set ([] @ []). \<not> (start_size x < 200 \<and> 200 < end_size x)"
    by simp
  have e: "start_size example_equation = of_int (min_base_length (ae_locus example_estimator))"
    "end_size example_equation = of_int (max_base_length (ae_locus example_estimator))"
    "of_int (min_base_length (ae_locus example_estimator)) = (100 :: rat)"
    "of_int (max_base_length (ae_locus example_estimator)) = (300 :: rat)"
    by (simp_all add: example_equation_def example_estimator_def example_locus_def)
  have f: "fitted_equation example_fit (peak_data example_estimator)
             \<lparr>ps_start_size = 100, ps_end_size = 200, ps_method = ''TSR''\<rparr>
           = \<lparr>sd = 1, r_squared = 1, slope = 100, intercept = 100,
              start_size = 100, end_size = 200\<rparr>"
    "fitted_equation example_fit (peak_data example_estimator)
             \<lparr>ps_start_size = 200, ps_end_size = 300, ps_method = ''TSR''\<rparr>
           = \<lparr>sd = 1, r_squared = 1, slope = 100, intercept = 200,
              start_size = 200, end_size = 300\<rparr>"
    "fitted_equation example_fit (peak_data example_estimator)
             \<lparr>ps_start_size = 100, ps_end_size = 300, ps_method = ''TSR''\<rparr>
           = \<lparr>sd = 1, r_squared = 1, slope = 200, intercept = 100,
              start_size = 100, end_size = 300\<rparr>"
    by (simp_all add: fitted_equation_def example_fit_def)
  note t = add_breakpoint_splits [OF h1 h2 h3 h4, of example_fit]
  have prem: "([] :: artifact_equation list) = [] \<and> ([] :: artifact_equation list) = []
      \<and> start_size example_equation = of_int (min_base_length (ae_locus example_estimator))
      \<and> end_size example_equation = of_int (max_base_length (ae_locus example_estimator))"
    using e by simp
  note u = t [THEN conjunct2, THEN conjunct2, THEN mp, OF prem]
  have A: "artifact_equations (add_breakpoint example_fit example_estimator 200)
        = [\<lparr>sd = 1, r_squared = 1, slope = 100, intercept = 100,
            start_size = 100, end_size = 200\<rparr>,
           \<lparr>sd = 1, r_squared = 1, slope = 100, intercept = 200,
            start_size = 200, end_size = 300\<rparr>]"
    using u [THEN conjunct1] unfolding e(3,4) f .
  have B: "artifact_equations
          (clear_breakpoints example_fit (add_breakpoint example_fit example_estimator 200))
        = [\<lparr>sd = 1, r_squared = 1, slope = 200, intercept = 100,
            start_size = 100, end_size = 300\<rparr>]"
    using u [THEN conjunct2, THEN conjunct2, THEN conjunct1] unfolding e(3,4) f .
  show ?thesis
    using h1 h2 h3 A B by (simp add: bounds_def)
qed

section \<open>Properties of \<open>find_max_data_point\<close>\<close>

lemma find_ladder_start_cases:
  "(\<exists>j'. find_ladder_start sizes indices min_len j = Inr j' \<and> j \<le> j' \<and> j' < length indices)
   \<or> find_ladder_start sizes indices min_len j = Inl IndexError"
proof (induction sizes indices min_len j rule: find_ladder_start.induct)
  case (1 sizes indices min_len j)
  show ?case
  proof (cases "j < length indices \<and> indices ! j < length sizes \<and> sizes ! (indices ! j) < min_len")
    case True
    then show ?thesis using 1 by (subst (1 2) find_ladder_start.simps) auto
  next
    case False
    then show ?thesis by (subst (1 2) find_ladder_start.simps) auto
  qed
qed

lemma find_ladder_start_ok:
  assumes "\<forall>k<length indices. indices ! k < length sizes"
      and "j \<le> k" "k < length indices" "\<not> sizes ! (indices ! k) < min_len"
  shows "\<exists>j'. find_ladder_start sizes indices min_len j = Inr j' \<and> j' < length indices"
  using assms
proof (induction sizes indices min_len j rule: find_ladder_start.induct)
  case (1 sizes indices min_len j)
  have jl: "j < length indices" using 1 by simp
  then have ir: "indices ! j < length sizes" using 1 by simp
  show ?case
  proof (cases "sizes ! (indices ! j) < min_len")
    case True
    then have "j \<noteq> k" using 1 by auto
    then have "j + 1 \<le> k" using 1 by simp
    from "1.IH" [OF jl ir True "1.prems"(1) this "1.prems"(3,4)]
    show ?thesis using jl ir True by (subst find_ladder_start.simps) simp
  next
    case False
    then show ?thesis using jl ir by (subst find_ladder_start.simps) simp
  qed
qed

lemma scan_data_points_cases:
  "(\<exists>mx'. scan_data_points sizes trace min_len max_len i mx = Inr mx' \<and> mx \<le> mx')
   \<or> scan_data_points sizes trace min_len max_len i mx = Inl IndexError"
proof (induction sizes trace min_len max_len i mx rule: scan_data_points.induct)
  case (1 sizes trace min_len max_len i mx)
  show ?case
  proof (cases "i < length sizes \<and> sizes ! i < max_len \<and> i + 1 < length sizes")
    case False
    then show ?thesis by (subst (1 2) scan_data_points.simps) auto
  next
    case c: True
    show ?thesis
    proof (cases "min_len < sizes ! (i + 1)")
      case False
      then show ?thesis using c 1(2) by (subst (1 2) scan_data_points.simps) auto
    next
      case m: True
      show ?thesis
      proof (cases "i + 1 < length trace")
        case False
        then show ?thesis using c m by (subst (1 2) scan_data_points.simps) auto
      next
        case True
        from 1(1) [OF _ _ _ m True] c
        show ?thesis using m True by (subst (1 2) scan_data_points.simps) (auto split: if_splits)
      qed
    qed
  qed
qed

lemma scan_data_points_ok:
  assumes "i \<le> k" "k < length sizes" "\<not> sizes ! k < max_len" "length sizes \<le> length trace"
  shows "\<exists>mx'. scan_data_points sizes trace min_len max_len i mx = Inr mx'"
  using assms
proof (induction sizes trace min_len max_len i mx rule: scan_data_points.induct)
  case (1 sizes trace min_len max_len i mx)
  have il: "i < length sizes" using 1 by simp
  show ?case
  proof (cases "sizes ! i < max_len")
    case False
    then show ?thesis using il by (subst scan_data_points.simps) simp
  next
    case lt: True
    then have "i \<noteq> k" using 1 by auto
    then have ik: "i + 1 \<le> k" using 1 by simp
    then have i1: "i + 1 < length sizes" using 1 by simp
    then have it: "i + 1 < length trace" using 1 by simp
    show ?thesis
    proof (cases "min_len < sizes ! (i + 1)")
      case True
      from "1.IH"(1) [OF il lt i1 True it ik "1.prems"(2,3,4)]
      show ?thesis using il lt i1 it True by (subst scan_data_points.simps) simp
    next
      case False
      from "1.IH"(2) [OF il lt i1 False ik "1.prems"(2,3,4)]
      show ?thesis using il lt i1 False by (subst scan_data_points.simps) simp
    qed
  qed
qed

lemma index_before_mem:
  "indices \<noteq> [] \<Longrightarrow> j < length indices \<Longrightarrow> index_before indices j \<in> set indices"
  by (auto simp: index_before_def)

text \<open>
  Claim C10, as stated, fails: a channel with a locus and a non-empty
  \<open>ladder_peak_indices\<close> whose only ladder peak lies below \<open>min_base_length\<close>
  makes the first loop read \<open>ladder_peak_indices[1]\<close>, out of range.
\<close>

theorem find_max_data_point_counterexample:
  "ch_locus example_channel_bad \<noteq> None \<and> ladder_peak_indices example_channel_bad \<noteq> []
   \<and> find_max_data_point example_channel_bad = Inl IndexError"
  by code_simp

text \<open>
  Claim C10, amended. For a channel with an assigned locus and a non-empty
  \<open>ladder_peak_indices\<close>, \<open>find_max_data_point\<close> always terminates, normally or
  with \<open>IndexError\<close>. It completes with every access in range, sorting the ladder
  indices and never lowering \<open>max_data_point\<close>, when every ladder peak index lies
  within \<open>base_sizes\<close>, some ladder peak has a base size of at least
  \<open>min_base_length\<close>, the last base size is at least \<open>max_base_length\<close> and
  \<open>data\<close> is at least as long as \<open>base_sizes\<close>.
\<close>

theorem find_max_data_point_safe:
  assumes loc: "ch_locus self = Some loc"
      and ne: "ladder_peak_indices self \<noteq> []"
  shows "((\<exists>ch. find_max_data_point self = Inr ch) \<or> find_max_data_point self = Inl IndexError)
       \<and> ((\<forall>i\<in>set (ladder_peak_indices self). i < length (base_sizes self))
            \<and> (\<exists>i\<in>set (ladder_peak_indices self).
                  of_int (min_base_length loc) \<le> base_sizes self ! i)
            \<and> of_int (max_base_length loc) \<le> last (base_sizes self)
            \<and> length (base_sizes self) \<le> length (data self)
          \<longrightarrow> (\<exists>mx. find_max_data_point self
                      = Inr (self\<lparr>ladder_peak_indices := sort (ladder_peak_indices self),
                                  max_data_point := mx\<rparr>)
                    \<and> max_data_point self \<le> mx))"
proof
  show "(\<exists>ch. find_max_data_point self = Inr ch) \<or> find_max_data_point self = Inl IndexError"
  proof (cases "find_ladder_start (base_sizes self) (sort (ladder_peak_indices self))
                  (of_int (min_base_length loc)) 0")
    case (Inl e)
    then have "e = IndexError"
      using find_ladder_start_cases [of "base_sizes self" "sort (ladder_peak_indices self)"
              "of_int (min_base_length loc)" 0] by auto
    then show ?thesis
      using Inl by (simp add: find_max_data_point_def loc ne bind_result_def Let_def)
  next
    case (Inr j)
    show ?thesis
    proof (cases "scan_data_points (base_sizes self) (data self) (of_int (min_base_length loc))
                    (of_int (max_base_length loc))
                    (index_before (sort (ladder_peak_indices self)) j) (max_data_point self)")
      case (Inl e)
      then have "e = IndexError"
        using scan_data_points_cases [of "base_sizes self" "data self"
                "of_int (min_base_length loc)" "of_int (max_base_length loc)"
                "index_before (sort (ladder_peak_indices self)) j" "max_data_point self"]
        by auto
      then show ?thesis
        using Inl \<open>find_ladder_start (base_sizes self) (sort (ladder_peak_indices self))
                  (of_int (min_base_length loc)) 0 = Inr j\<close>
        by (simp add: find_max_data_point_def loc ne bind_result_def Let_def)
    next
      case (Inr mx)
      then show ?thesis
        using \<open>find_ladder_start (base_sizes self) (sort (ladder_peak_indices self))
                  (of_int (min_base_length loc)) 0 = Inr j\<close>
        by (simp add: find_max_data_point_def loc ne bind_result_def Let_def)
    qed
  qed
next
  show "(\<forall>i\<in>set (ladder_peak_indices self). i < length (base_sizes self))
            \<and> (\<exists>i\<in>set (ladder_peak_indices self).
                  of_int (min_base_length loc) \<le> base_sizes self ! i)
            \<and> of_int (max_base_length loc) \<le> last (base_sizes self)
            \<and> length (base_sizes self) \<le> length (data self)
          \<longrightarrow> (\<exists>mx. find_max_data_point self
                      = Inr (self\<lparr>ladder_peak_indices := sort (ladder_peak_indices self),
                                  max_data_point := mx\<rparr>)
                    \<and> max_data_point self \<le> mx)"
  proof
    assume a: "(\<forall>i\<in>set (ladder_peak_indices self). i < length (base_sizes self))
            \<and> (\<exists>i\<in>set (ladder_peak_indices self).
                  of_int (min_base_length loc) \<le> base_sizes self ! i)
            \<and> of_int (max_base_length loc) \<le> last (base_sizes self)
            \<and> length (base_sizes self) \<le> length (data self)"
    define indices where "indices = sort (ladder_peak_indices self)"
    define sizes where "sizes = base_sizes self"
    have sne: "indices \<noteq> []" using ne unfolding indices_def by (metis length_sort length_0_conv)
    have rng: "\<forall>k<length indices. indices ! k < length sizes"
      using a unfolding indices_def sizes_def by (metis nth_mem set_sort)
    obtain i where i: "i \<in> set indices" "of_int (min_base_length loc) \<le> sizes ! i"
      using a unfolding indices_def sizes_def by auto
    then obtain k where k: "k < length indices" "indices ! k = i"
      by (auto simp: in_set_conv_nth)
    obtain j where j: "find_ladder_start sizes indices (of_int (min_base_length loc)) 0 = Inr j"
        "j < length indices"
      using find_ladder_start_ok [OF rng _ k(1), of 0 "of_int (min_base_length loc)"] i(2) k(2)
      by auto
    have "index_before indices j \<in> set indices" by (rule index_before_mem [OF sne j(2)])
    then have st: "index_before indices j < length sizes"
      using rng by (auto simp: in_set_conv_nth)
    then have snz: "sizes \<noteq> []" by auto
    have lastk: "sizes ! (length sizes - 1) = last sizes" using snz by (simp add: last_conv_nth)
    have "\<exists>mx'. scan_data_points sizes (data self) (of_int (min_base_length loc))
             (of_int (max_base_length loc)) (index_before indices j) (max_data_point self) = Inr mx'"
      apply (rule scan_data_points_ok [where k = "length sizes - 1"])
      using st snz lastk a unfolding sizes_def by auto
    then obtain mx where mx: "scan_data_points sizes (data self) (of_int (min_base_length loc))
             (of_int (max_base_length loc)) (index_before indices j) (max_data_point self) = Inr mx"
      by blast
    have le: "max_data_point self \<le> mx"
      using scan_data_points_cases [of sizes "data self" "of_int (min_base_length loc)"
            "of_int (max_base_length loc)" "index_before indices j" "max_data_point self"] mx
      by auto
    have "find_max_data_point self
            = Inr (self\<lparr>ladder_peak_indices := sort (ladder_peak_indices self),
                        max_data_point := mx\<rparr>)"
      using j mx
      by (simp add: find_max_data_point_def loc ne bind_result_def Let_def
            flip: indices_def sizes_def)
    then show "\<exists>mx. find_max_data_point self
                      = Inr (self\<lparr>ladder_peak_indices := sort (ladder_peak_indices self),
                                  max_data_point := mx\<rparr>)
                    \<and> max_data_point self \<le> mx"
      using le by blast
  qed
qed

theorem find_max_data_point_safe_witness:
  "ch_locus example_channel = Some example_locus \<and> ladder_peak_indices example_channel \<noteq> []
   \<and> list_all (\<lambda>i. i < length (base_sizes example_channel))
         (ladder_peak_indices example_channel)
   \<and> list_ex (\<lambda>i. of_int (min_base_length example_locus) \<le> base_sizes example_channel ! i)
         (ladder_peak_indices example_channel)
   \<and> of_int (max_base_length example_locus) \<le> last (base_sizes example_channel)
   \<and> length (base_sizes example_channel) \<le> length (data example_channel)
   \<and> (\<exists>mx. find_max_data_point example_channel
          = Inr (example_channel\<lparr>ladder_peak_indices := sort (ladder_peak_indices example_channel),
                                 max_data_point := mx\<rparr>)
        \<and> max_data_point example_channel \<le> mx)"
proof -
  have h1: "ch_locus example_channel = Some example_locus"
    and h2: "ladder_peak_indices example_channel \<noteq> []"
    by (simp_all add: example_channel_def)
  have h3: "(\<forall>i\<in>set (ladder_peak_indices example_channel). i < length (base_sizes example_channel))
   \<and> (\<exists>i\<in>set (ladder_peak_indices example_channel).
         of_int (min_base_length example_locus) \<le> base_sizes example_channel ! i)
   \<and> of_int (max_base_length example_locus) \<le> last (base_sizes example_channel)
   \<and> length (base_sizes example_channel) \<le> length (data example_channel)"
    by (simp add: example_channel_def example_locus_def)
  have h4: "list_all (\<lambda>i. i < length (base_sizes example_channel))
         (ladder_peak_indices example_channel)
   \<and> list_ex (\<lambda>i. of_int (min_base_length example_locus) \<le> base_sizes example_channel ! i)
         (ladder_peak_indices example_channel)"
    by (simp add: example_channel_def example_locus_def)
  show ?thesis
    using h1 h2 h3 h4 find_max_data_point_safe [OF h1 h2] by blast
qed

section \<open>Properties of best-run selection and sample analysis\<close>

lemma map_result_Cons_Inr:
  "map_result f (x # xs) = Inr zs \<longleftrightarrow>
     (\<exists>y ys. f x = Inr y \<and> map_result f xs = Inr ys \<and> zs = y # ys)"
  by (auto simp: bind_result_def split: sum.splits)

lemma map_result_Inr:
  "map_result f xs = Inr ys \<longleftrightarrow> list_all2 (\<lambda>x y. f x = Inr y) xs ys"
proof (induction xs arbitrary: ys)
  case Nil
  then show ?case by auto
next
  case (Cons x xs)
  show ?case
    unfolding map_result_Cons_Inr list_all2_Cons1 Cons.IH by auto
qed









lemma stamp_flags_closed:
  "stamp_flags lp p = p\<lparr>flags :=
     [(''below_relative_threshold'', relative_peak_height p < relative_peak_height_limit lp),
      (''bleedthrough'', bleedthrough_filter_limit lp < bleedthrough_ratio p
                          \<or> offscale_threshold lp < peak_height p * bleedthrough_ratio p),
      (''crosstalk'', crosstalk_filter_limit lp < crosstalk_ratio p
                       \<or> offscale_threshold lp < peak_height p * crosstalk_ratio p),
      (''artifact'', peak_height p - artifact_contribution p
                       - artifact_error p * hard_artifact_sd_limit lp
                     < absolute_peak_height_limit lp)]\<rparr>"
  by (simp add: stamp_flags_def Let_def)

lemma stamp_flags_peak_height: "peak_height (stamp_flags lp p) = peak_height p"
  by (simp add: stamp_flags_closed)

lemma analyze_samples_row:
  assumes "analyze_samples db self lid = Inr las'" and "i < length las'"
  shows "\<exists>lp. get_locus_parameters db self lid = Inr lp
           \<and> i < length (locus_annotations_at db self lid)
           \<and> analyze_annotation db self lp (locus_annotations_at db self lid ! i) = Inr (las' ! i)"
proof (cases "get_locus_parameters db self lid")
  case (Inl e)
  then show ?thesis using assms by (simp add: analyze_samples_def bind_result_def)
next
  case (Inr lp)
  then have "list_all2 (\<lambda>x y. analyze_annotation db self lp x = Inr y)
               (locus_annotations_at db self lid) las'"
    using assms by (simp add: analyze_samples_def bind_result_def map_result_Inr)
  then show ?thesis
    using Inr assms(2) by (auto simp: list_all2_conv_all_nth)
qed

lemma analyze_annotation_run:
  assumes "analyze_annotation db self lp row = Inr la'"
      and "get_best_run db self (sa_sample_id (snd row)) (la_locus_id (fst row)) = Inr (Some run)"
  shows "la' = annotate_from_run lp run (fst row)"
  using assms by (simp add: analyze_annotation_def bind_result_def Let_def)

lemma annotate_from_run_failure:
  "map_of (la_flags (annotate_from_run lp run la)) ''failure''
     = Some (\<not> (\<exists>p\<in>set (la_annotated_peaks (annotate_from_run lp run la)).
                  failure_threshold lp < peak_height p))"
  by (simp add: annotate_from_run_def Let_def update_conv' list_ex_iff stamp_flags_peak_height)

lemma annotate_from_run_alleles:
  assumes "map_of (la_flags (annotate_from_run lp run la)) ''failure'' = Some True"
  shows "\<forall>kv\<in>set (alleles (annotate_from_run lp run la)). \<not> snd kv"
  using assms
  by (auto simp: annotate_from_run_def Let_def update_conv' split: if_splits)

lemma annotate_from_run_curation:
  "map_of (la_flags (annotate_from_run lp run la)) ''manual_curation'' = Some False"
  by (simp add: annotate_from_run_def Let_def update_conv')

lemma annotate_from_run_peaks:
  "la_annotated_peaks (annotate_from_run lp run la) = map (stamp_flags lp) (peaks_of run)"
  by (simp add: annotate_from_run_def Let_def)

text \<open>
  Claim C4. After \<open>analyze_samples\<close> has run for a locus, every locus annotation of
  the query for which a best run was found has \<open>flags['failure']\<close> set, and set to
  true exactly when none of its annotated peaks is higher than the locus's
  \<open>failure_threshold\<close>; and when the flag is true every entry of its \<open>alleles\<close>
  dictionary is false, whatever the bin membership of the peaks.
\<close>

theorem analyze_samples_failure:
  assumes run: "analyze_samples db self lid = Inr las'"
      and i: "i < length las'"
      and best: "get_best_run db self
                   (sa_sample_id (snd (locus_annotations_at db self lid ! i)))
                   (la_locus_id (fst (locus_annotations_at db self lid ! i))) = Inr (Some r)"
  shows "\<exists>lp. get_locus_parameters db self lid = Inr lp
         \<and> map_of (la_flags (las' ! i)) ''failure''
             = Some (\<not> (\<exists>p\<in>set (la_annotated_peaks (las' ! i)).
                          failure_threshold lp < peak_height p))
         \<and> (map_of (la_flags (las' ! i)) ''failure'' = Some True
              \<longrightarrow> (\<forall>kv\<in>set (alleles (las' ! i)). \<not> snd kv))"
proof -
  obtain lp where lp: "get_locus_parameters db self lid = Inr lp"
      and a: "analyze_annotation db self lp (locus_annotations_at db self lid ! i) = Inr (las' ! i)"
    using analyze_samples_row [OF run i] by auto
  have eq: "las' ! i = annotate_from_run lp r (fst (locus_annotations_at db self lid ! i))"
    by (rule analyze_annotation_run [OF a best])
  show ?thesis
    using lp annotate_from_run_failure [of lp r] annotate_from_run_alleles [of lp r]
    unfolding eq by blast
qed

theorem analyze_samples_failure_witness:
  "analyze_samples example_db example_project 1
     = Inr [annotate_from_run example_params example_run example_locus_annotation]
   \<and> 0 < length [annotate_from_run example_params example_run example_locus_annotation]
   \<and> get_best_run example_db example_project
         (sa_sample_id (snd (locus_annotations_at example_db example_project 1 ! 0)))
         (la_locus_id (fst (locus_annotations_at example_db example_project 1 ! 0)))
       = Inr (Some example_run)
   \<and> map_of (la_flags (annotate_from_run example_params example_run example_locus_annotation))
        ''failure'' = Some True
   \<and> list_all (\<lambda>kv. \<not> snd kv)
         (alleles (annotate_from_run example_params example_run example_locus_annotation))"
proof -
  have h1: "analyze_samples example_db example_project 1
     = Inr [annotate_from_run example_params example_run example_locus_annotation]"
    by code_simp
  have h2: "0 < length [annotate_from_run example_params example_run example_locus_annotation]"
    by simp
  have h3: "get_best_run example_db example_project
         (sa_sample_id (snd (locus_annotations_at example_db example_project 1 ! 0)))
         (la_locus_id (fst (locus_annotations_at example_db example_project 1 ! 0)))
       = Inr (Some example_run)"
    by code_simp
  have f: "map_of (la_flags (annotate_from_run example_params example_run example_locus_annotation))
        ''failure'' = Some True"
    by code_simp
  from analyze_samples_failure [OF h1 h2 h3] f
  have "\<forall>kv\<in>set (alleles (annotate_from_run example_params example_run example_locus_annotation)).
         \<not> snd kv"
    by (elim exE conjE) simp
  then show ?thesis using h1 h3 f by (simp add: list_all_iff)
qed

text \<open>
  Claim C9. For every locus annotation of the query for which a best run was found,
  \<open>analyze_samples\<close> leaves \<open>flags['manual_curation']\<close> false, whatever it was
  before, and stores the peaks of the best run with each \<open>flags\<close> dictionary
  replaced by the four entries recomputed from the current thresholds.
\<close>

theorem analyze_samples_overwrites:
  assumes run: "analyze_samples db self lid = Inr las'"
      and i: "i < length las'"
      and best: "get_best_run db self
                   (sa_sample_id (snd (locus_annotations_at db self lid ! i)))
                   (la_locus_id (fst (locus_annotations_at db self lid ! i))) = Inr (Some r)"
  shows "\<exists>lp. get_locus_parameters db self lid = Inr lp
         \<and> map_of (la_flags (las' ! i)) ''manual_curation'' = Some False
         \<and> la_annotated_peaks (las' ! i)
             = map (\<lambda>p. p\<lparr>flags :=
                 [(''below_relative_threshold'',
                     relative_peak_height p < relative_peak_height_limit lp),
                  (''bleedthrough'', bleedthrough_filter_limit lp < bleedthrough_ratio p
                     \<or> offscale_threshold lp < peak_height p * bleedthrough_ratio p),
                  (''crosstalk'', crosstalk_filter_limit lp < crosstalk_ratio p
                     \<or> offscale_threshold lp < peak_height p * crosstalk_ratio p),
                  (''artifact'', peak_height p - artifact_contribution p
                       - artifact_error p * hard_artifact_sd_limit lp
                     < absolute_peak_height_limit lp)]\<rparr>)
                 (peaks_of r)"
proof -
  obtain lp where lp: "get_locus_parameters db self lid = Inr lp"
      and a: "analyze_annotation db self lp (locus_annotations_at db self lid ! i) = Inr (las' ! i)"
    using analyze_samples_row [OF run i] by auto
  have eq: "las' ! i = annotate_from_run lp r (fst (locus_annotations_at db self lid ! i))"
    by (rule analyze_annotation_run [OF a best])
  have pk: "map (stamp_flags lp) (peaks_of r) = map (\<lambda>p. p\<lparr>flags :=
                 [(''below_relative_threshold'',
                     relative_peak_height p < relative_peak_height_limit lp),
                  (''bleedthrough'', bleedthrough_filter_limit lp < bleedthrough_ratio p
                     \<or> offscale_threshold lp < peak_height p * bleedthrough_ratio p),
                  (''crosstalk'', crosstalk_filter_limit lp < crosstalk_ratio p
                     \<or> offscale_threshold lp < peak_height p * crosstalk_ratio p),
                  (''artifact'', peak_height p - artifact_contribution p
                       - artifact_error p * hard_artifact_sd_limit lp
                     < absolute_peak_height_limit lp)]\<rparr>)
                 (peaks_of r)"
    by (simp add: stamp_flags_closed)
  show ?thesis
    using lp annotate_from_run_curation [of lp r] annotate_from_run_peaks [of lp r] pk
    unfolding eq by simp
qed

theorem analyze_samples_overwrites_witness:
  "analyze_samples example_db example_project 1
     = Inr [annotate_from_run example_params example_run example_locus_annotation]
   \<and> 0 < length [annotate_from_run example_params example_run example_locus_annotation]
   \<and> get_best_run example_db example_project
         (sa_sample_id (snd (locus_annotations_at example_db example_project 1 ! 0)))
         (la_locus_id (fst (locus_annotations_at example_db example_project 1 ! 0)))
       = Inr (Some example_run)
   \<and> map_of (la_flags example_locus_annotation) ''manual_curation'' = Some True
   \<and> map_of (la_flags (annotate_from_run example_params example_run example_locus_annotation))
        ''manual_curation'' = Some False"
proof -
  have h1: "analyze_samples example_db example_project 1
     = Inr [annotate_from_run example_params example_run example_locus_annotation]"
    by code_simp
  have h2: "0 < length [annotate_from_run example_params example_run example_locus_annotation]"
    by simp
  have h3: "get_best_run example_db example_project
         (sa_sample_id (snd (locus_annotations_at example_db example_project 1 ! 0)))
         (la_locus_id (fst (locus_annotations_at example_db example_project 1 ! 0)))
       = Inr (Some example_run)"
    by code_simp
  have b: "map_of (la_flags example_locus_annotation) ''manual_curation'' = Some True"
    by (simp add: example_locus_annotation_def)
  from analyze_samples_overwrites [OF h1 h2 h3]
  have "map_of (la_flags (annotate_from_run example_params example_run example_locus_annotation))
        ''manual_curation'' = Some False"
    by auto
  then show ?thesis using h1 h3 b by simp
qed

section \<open>Properties of the probabilistic peak annotation\<close>















lemma peak_freq_Inr:
  "peak_freq c l x = Inr g \<Longrightarrow> g = frequency_value c l (bin_id x) * probability x"
  by (auto simp: peak_freq_def allele_frequency_def bind_result_def split: if_splits)

lemma map_peak_freq_Inr:
  "map_result (peak_freq c l) xs = Inr gs
     \<Longrightarrow> gs = map (\<lambda>x. frequency_value c l (bin_id x) * probability x) xs"
proof (induction xs arbitrary: gs)
  case Nil
  then show ?case by simp
next
  case (Cons x xs)
  from Cons.prems obtain g gs' where "peak_freq c l x = Inr g"
      "map_result (peak_freq c l) xs = Inr gs'" "gs = g # gs'"
    unfolding map_result_Cons_Inr by blast
  then show ?case using Cons.IH peak_freq_Inr by simp
qed

lemma new_probability_Inr:
  assumes "new_probability c l m all_peaks p = Inr v"
  shows "(sum_list (map (\<lambda>x. frequency_value c l (bin_id x) * probability x)
                      (filter (\<lambda>x. peak_index x \<noteq> peak_index p) all_peaks))
            + frequency_value c l (bin_id p) * probability p) ^ m \<noteq> 0
       \<and> v = ((sum_list (map (\<lambda>x. frequency_value c l (bin_id x) * probability x)
                      (filter (\<lambda>x. peak_index x \<noteq> peak_index p) all_peaks))
                 + frequency_value c l (bin_id p) * probability p) ^ m
               - sum_list (map (\<lambda>x. frequency_value c l (bin_id x) * probability x)
                      (filter (\<lambda>x. peak_index x \<noteq> peak_index p) all_peaks)) ^ m)
              / (sum_list (map (\<lambda>x. frequency_value c l (bin_id x) * probability x)
                      (filter (\<lambda>x. peak_index x \<noteq> peak_index p) all_peaks))
                 + frequency_value c l (bin_id p) * probability p) ^ m"
proof -
  obtain g where g: "peak_freq c l p = Inr g"
    using assms by (cases "peak_freq c l p") (simp_all add: new_probability_def bind_result_def)
  obtain gs where gs: "map_result (peak_freq c l)
                         (filter (\<lambda>x. peak_index x \<noteq> peak_index p) all_peaks) = Inr gs"
    using assms g
    by (cases "map_result (peak_freq c l) (filter (\<lambda>x. peak_index x \<noteq> peak_index p) all_peaks)")
       (simp_all add: new_probability_def bind_result_def)
  have g': "g = frequency_value c l (bin_id p) * probability p"
    by (rule peak_freq_Inr [OF g])
  have gs': "gs = map (\<lambda>x. frequency_value c l (bin_id x) * probability x)
                    (filter (\<lambda>x. peak_index x \<noteq> peak_index p) all_peaks)"
    by (rule map_peak_freq_Inr [OF gs])
  have "(if (sum_list gs + g) ^ m = 0 then Inl ZeroDivisionError
         else Inr (((sum_list gs + g) ^ m - sum_list gs ^ m) / (sum_list gs + g) ^ m)) = Inr v"
    using assms by (simp add: new_probability_def bind_result_def g gs Let_def)
  then have "(sum_list gs + g) ^ m \<noteq> 0
      \<and> v = ((sum_list gs + g) ^ m - sum_list gs ^ m) / (sum_list gs + g) ^ m"
    by (auto split: if_splits)
  then show ?thesis unfolding g' gs' .
qed

lemma new_probs_lookup_distinct:
  assumes mr: "map_result (\<lambda>peak. bind_result (F peak) (\<lambda>v. Inr (peak_index peak, v))) ps = Inr nps"
      and d: "distinct (map peak_index ps)"
      and p: "p \<in> set ps"
  shows "\<exists>v. F p = Inr v \<and> new_probs_lookup nps (peak_index p) = Some v"
proof -
  have la2: "list_all2 (\<lambda>peak np. bind_result (F peak) (\<lambda>v. Inr (peak_index peak, v)) = Inr np)
               ps nps"
    using mr by (simp add: map_result_Inr)
  have R: "\<And>peak np. bind_result (F peak) (\<lambda>v. Inr (peak_index peak, v)) = Inr np
             \<Longrightarrow> fst np = peak_index peak \<and> F peak = Inr (snd np)"
    by (auto simp: bind_result_def split: sum.splits)
  have len: "length nps = length ps" using la2 by (simp add: list_all2_lengthD)
  have pt: "\<And>i. i < length ps \<Longrightarrow>
              fst (nps ! i) = peak_index (ps ! i) \<and> F (ps ! i) = Inr (snd (nps ! i))"
  proof -
    fix i assume "i < length ps"
    then have "bind_result (F (ps ! i)) (\<lambda>v. Inr (peak_index (ps ! i), v)) = Inr (nps ! i)"
      using la2 by (simp add: list_all2_conv_all_nth)
    then show "fst (nps ! i) = peak_index (ps ! i) \<and> F (ps ! i) = Inr (snd (nps ! i))"
      by (rule R)
  qed
  have fsts: "map fst nps = map peak_index ps"
    using pt len by (simp add: list_eq_iff_nth_eq)
  then have dn: "distinct (map fst nps)" using d by simp
  obtain n where n: "n < length ps" "ps ! n = p" using p by (auto simp: in_set_conv_nth)
  have Fp: "F p = Inr (snd (nps ! n))" "fst (nps ! n) = peak_index p"
    using pt [OF n(1)] n(2) by simp_all
  have "nps ! n \<in> set (rev nps)" using n len by simp
  then have "(peak_index p, snd (nps ! n)) \<in> set (rev nps)"
    using Fp(2) by (metis prod.collapse)
  moreover have "distinct (map fst (rev nps))" using dn by (metis distinct_rev rev_map)
  ultimately have "map_of (rev nps) (peak_index p) = Some (snd (nps ! n))"
    by (rule map_of_is_SomeI [rotated])
  then show ?thesis using Fp(1) by (simp add: new_probs_lookup_def)
qed

lemma filter_index_eq:
  assumes d: "distinct (map peak_index ps)" and p: "p \<in> set ps"
  shows "filter (\<lambda>x. peak_index x \<noteq> peak_index p) (filter Q ps)
           = filter (\<lambda>x. x \<noteq> p) (filter Q ps)"
proof (rule filter_cong [OF refl])
  fix x assume "x \<in> set (filter Q ps)"
  then have x: "x \<in> set ps" by simp
  have "inj_on peak_index (set ps)" using d by (simp add: distinct_map)
  then show "(peak_index x \<noteq> peak_index p) = (x \<noteq> p)"
    using x p by (auto dest: inj_onD)
qed

lemma refine_annotation_peak:
  assumes r: "refine_annotation db self c m la = Inr (la', b)"
      and lp: "get_locus_parameters db self (la_locus_id la) = Inr lp"
      and d: "distinct (map peak_index (la_annotated_peaks la))"
      and j: "j < length (la_annotated_peaks la)"
      and called: "probability_threshold self < probability (la_annotated_peaks la ! j)"
      and art: "possible_artifact lp (la_annotated_peaks la ! j)"
  shows "\<exists>v. new_probability c (la_locus_id la) m
               (filter (\<lambda>x. probability_threshold self < probability x) (la_annotated_peaks la))
               (la_annotated_peaks la ! j) = Inr v
           \<and> probability (la_annotated_peaks la' ! j) = v"
proof -
  define thr where "thr = probability_threshold self"
  define peaks where "peaks = la_annotated_peaks la"
  define all_peaks where "all_peaks = filter (\<lambda>x. thr < probability x) peaks"
  define poss where "poss = filter (possible_artifact lp) all_peaks"
  define p where "p = peaks ! j"
  obtain nps where nps:
      "map_result (\<lambda>peak. bind_result (new_probability c (la_locus_id la) m all_peaks peak)
                           (\<lambda>v. Inr (peak_index peak, v))) poss = Inr nps"
    using r
    by (cases "map_result (\<lambda>peak. bind_result (new_probability c (la_locus_id la) m all_peaks peak)
                           (\<lambda>v. Inr (peak_index peak, v))) poss")
       (simp_all add: refine_annotation_def lp bind_result_def Let_def
          thr_def peaks_def all_peaks_def poss_def)
  have la': "la_annotated_peaks la' = map (assign_probability lp thr nps) peaks"
    using r nps
    by (auto simp add: refine_annotation_def lp bind_result_def Let_def
          thr_def peaks_def all_peaks_def poss_def)
  have pin: "p \<in> set poss"
    using j called art by (simp add: poss_def all_peaks_def p_def peaks_def thr_def)
  have dp: "distinct (map peak_index poss)"
    using d by (simp add: poss_def all_peaks_def peaks_def distinct_map_filter)
  obtain v where v: "new_probability c (la_locus_id la) m all_peaks p = Inr v"
      "new_probs_lookup nps (peak_index p) = Some v"
    using new_probs_lookup_distinct [OF nps dp pin] by blast
  have "la_annotated_peaks la' ! j = assign_probability lp thr nps p"
    using la' j by (simp add: p_def peaks_def)
  also have "\<dots> = p\<lparr>probability := v\<rparr>"
    using called art v(2) by (simp add: assign_probability_def p_def peaks_def thr_def)
  finally have "probability (la_annotated_peaks la' ! j) = v" by simp
  then show ?thesis
    using v(1) unfolding all_peaks_def p_def peaks_def thr_def by blast
qed

lemma refine_annotation_sid:
  "refine_annotation db self c m la = Inr (la', b)
     \<Longrightarrow> sample_annotations_id la' = sample_annotations_id la"
  by (auto simp: refine_annotation_def bind_result_def Let_def split: sum.splits)

lemma process_sample_Inr:
  assumes "process_sample db self c las sa = Inr (las1, sa1, ch)"
  shows "\<exists>m. sample_moi (probability_threshold self)
               (filter (\<lambda>la. sample_annotations_id la = sa_id sa) las) 0 = Inr m
           \<and> sa1 = sa\<lparr>moi := m\<rparr>
           \<and> length las1 = length las
           \<and> (\<forall>i<length las.
                 sample_annotations_id (las1 ! i) = sample_annotations_id (las ! i)
               \<and> (sample_annotations_id (las ! i) \<noteq> sa_id sa \<longrightarrow> las1 ! i = las ! i)
               \<and> (sample_annotations_id (las ! i) = sa_id sa \<and> la_active (las ! i) = Inr True
                    \<longrightarrow> (\<exists>b. refine_annotation db self c m (las ! i) = Inr (las1 ! i, b))))"
proof -
  obtain m where m: "sample_moi (probability_threshold self)
               (filter (\<lambda>la. sample_annotations_id la = sa_id sa) las) 0 = Inr m"
    using assms
    by (cases "sample_moi (probability_threshold self)
               (filter (\<lambda>la. sample_annotations_id la = sa_id sa) las) 0")
       (simp_all add: process_sample_def bind_result_def)
  define step where "step = (\<lambda>la. if sample_annotations_id la = sa_id sa
                    then bind_result (la_active la)
                           (\<lambda>act. if act then refine_annotation db self c m la
                                   else Inr (la, False))
                    else Inr (la, False))"
  obtain rs where rs: "map_result step las = Inr rs"
    using assms m
    by (cases "map_result step las") (simp_all add: process_sample_def bind_result_def step_def)
  have out: "las1 = map fst rs" "sa1 = sa\<lparr>moi := m\<rparr>"
    using assms m rs by (simp_all add: process_sample_def bind_result_def step_def)
  have la2: "list_all2 (\<lambda>la r. step la = Inr r) las rs"
    using rs by (simp add: map_result_Inr)
  then have len: "length rs = length las" by (simp add: list_all2_lengthD)
  have pt: "\<And>i. i < length las \<Longrightarrow> step (las ! i) = Inr (rs ! i)"
    using la2 by (simp add: list_all2_conv_all_nth)
  have each: "\<forall>i<length las.
                 sample_annotations_id (las1 ! i) = sample_annotations_id (las ! i)
               \<and> (sample_annotations_id (las ! i) \<noteq> sa_id sa \<longrightarrow> las1 ! i = las ! i)
               \<and> (sample_annotations_id (las ! i) = sa_id sa \<and> la_active (las ! i) = Inr True
                    \<longrightarrow> (\<exists>b. refine_annotation db self c m (las ! i) = Inr (las1 ! i, b)))"
  proof (intro allI impI)
    fix i assume i: "i < length las"
    have s: "step (las ! i) = Inr (rs ! i)" by (rule pt [OF i])
    have f: "las1 ! i = fst (rs ! i)" using out(1) i len by simp
    have 2: "sample_annotations_id (las ! i) \<noteq> sa_id sa \<longrightarrow> las1 ! i = las ! i"
    proof
      assume "sample_annotations_id (las ! i) \<noteq> sa_id sa"
      then have "rs ! i = (las ! i, False)" using s by (simp add: step_def)
      then show "las1 ! i = las ! i" using f by simp
    qed
    have 3: "sample_annotations_id (las ! i) = sa_id sa \<and> la_active (las ! i) = Inr True
                    \<longrightarrow> (\<exists>b. refine_annotation db self c m (las ! i) = Inr (las1 ! i, b))"
    proof
      assume "sample_annotations_id (las ! i) = sa_id sa \<and> la_active (las ! i) = Inr True"
      then have "refine_annotation db self c m (las ! i) = Inr (rs ! i)"
        using s by (simp add: step_def bind_result_def)
      then have "refine_annotation db self c m (las ! i) = Inr (las1 ! i, snd (rs ! i))"
        using f by simp
      then show "\<exists>b. refine_annotation db self c m (las ! i) = Inr (las1 ! i, b)" by blast
    qed
    have 1: "sample_annotations_id (las1 ! i) = sample_annotations_id (las ! i)"
    proof (cases "sample_annotations_id (las ! i) = sa_id sa")
      case False
      then show ?thesis using 2 by simp
    next
      case True
      show ?thesis
      proof (cases "la_active (las ! i)")
        case (Inl e)
        then show ?thesis using s True by (simp add: step_def bind_result_def)
      next
        case (Inr act)
        show ?thesis
        proof (cases act)
          case True
          then have "la_active (las ! i) = Inr True" using Inr by simp
          then obtain b where "refine_annotation db self c m (las ! i) = Inr (las1 ! i, b)"
            using 3 \<open>sample_annotations_id (las ! i) = sa_id sa\<close> by blast
          then show ?thesis by (rule refine_annotation_sid)
        next
          case False
          then have "rs ! i = (las ! i, False)"
            using s Inr \<open>sample_annotations_id (las ! i) = sa_id sa\<close>
            by (simp add: step_def bind_result_def)
          then show ?thesis using f by simp
        qed
      qed
    qed
    show "sample_annotations_id (las1 ! i) = sample_annotations_id (las ! i)
               \<and> (sample_annotations_id (las ! i) \<noteq> sa_id sa \<longrightarrow> las1 ! i = las ! i)
               \<and> (sample_annotations_id (las ! i) = sa_id sa \<and> la_active (las ! i) = Inr True
                    \<longrightarrow> (\<exists>b. refine_annotation db self c m (las ! i) = Inr (las1 ! i, b)))"
      by (intro conjI) (rule 1, rule 2, rule 3)
  qed
  show ?thesis
    by (rule exI [of _ m], intro conjI)
       (rule m, rule out(2), simp add: out(1) len, rule each)
qed

lemma filter_unchanged:
  assumes "length ys = length xs"
      and "\<forall>i<length xs. P (ys ! i) = P (xs ! i) \<and> (P (xs ! i) \<longrightarrow> ys ! i = xs ! i)"
  shows "filter P ys = filter P xs"
  using assms
proof (induction ys xs rule: list_induct2)
  case Nil
  then show ?case by simp
next
  case (Cons y ys x xs)
  have hd: "P y = P x \<and> (P x \<longrightarrow> y = x)"
    using Cons.prems by (metis length_Cons nth_Cons_0 zero_less_Suc)
  have "\<forall>i<length xs. P (ys ! i) = P (xs ! i) \<and> (P (xs ! i) \<longrightarrow> ys ! i = xs ! i)"
  proof (intro allI impI)
    fix i assume "i < length xs"
    then have "Suc i < length (x # xs)" by simp
    from Cons.prems [rule_format, OF this]
    show "P (ys ! i) = P (xs ! i) \<and> (P (xs ! i) \<longrightarrow> ys ! i = xs ! i)" by simp
  qed
  then have "filter P ys = filter P xs" by (rule Cons.IH)
  then show ?case using hd by auto
qed

lemma process_samples_frame:
  assumes "process_samples db self c sas las = Inr (las', sas', ch)"
      and "\<forall>sa\<in>set sas. sa_id sa \<noteq> sample_annotations_id (las ! i)"
      and "i < length las"
  shows "las' ! i = las ! i \<and> length las' = length las"
  using assms
proof (induction sas arbitrary: las las' sas' ch)
  case Nil
  then show ?case by simp
next
  case (Cons sa sas)
  obtain r1 where r1: "process_sample db self c las sa = Inr r1"
    using Cons.prems(1)
    by (cases "process_sample db self c las sa") (simp_all add: bind_result_def)
  obtain r2 where r2: "process_samples db self c sas (fst r1) = Inr r2"
    using Cons.prems(1) r1
    by (cases "process_samples db self c sas (fst r1)") (simp_all add: bind_result_def)
  have out: "las' = fst r2" using Cons.prems(1) r1 r2 by (simp add: bind_result_def)
  have p1: "process_sample db self c las sa = Inr (fst r1, fst (snd r1), snd (snd r1))"
    using r1 by simp
  from process_sample_Inr [OF p1] have
      len1: "length (fst r1) = length las"
    and each: "\<forall>i<length las.
                 sample_annotations_id (fst r1 ! i) = sample_annotations_id (las ! i)
               \<and> (sample_annotations_id (las ! i) \<noteq> sa_id sa \<longrightarrow> fst r1 ! i = las ! i)"
    by auto
  have ne: "sample_annotations_id (las ! i) \<noteq> sa_id sa" using Cons.prems(2) by auto
  have same: "fst r1 ! i = las ! i" using each Cons.prems(3) ne by simp
  have p2: "process_samples db self c sas (fst r1) = Inr (fst r2, fst (snd r2), snd (snd r2))"
    using r2 by simp
  have "fst r2 ! i = fst r1 ! i \<and> length (fst r2) = length (fst r1)"
  proof (rule Cons.IH [OF p2])
    show "\<forall>sa\<in>set sas. sa_id sa \<noteq> sample_annotations_id (fst r1 ! i)"
      using Cons.prems(2) same by simp
    show "i < length (fst r1)" using Cons.prems(3) len1 by simp
  qed
  then show ?case using out same len1 by simp
qed

lemma process_samples_target:
  assumes "process_samples db self c sas las = Inr (las', sas', ch)"
      and "distinct (map sa_id sas)"
      and "k < length sas" and "i < length las"
      and "sa_id (sas ! k) = sample_annotations_id (las ! i)"
      and "la_active (las ! i) = Inr True"
  shows "\<exists>m b. sample_moi (probability_threshold self)
                 (filter (\<lambda>la. sample_annotations_id la = sa_id (sas ! k)) las) 0 = Inr m
             \<and> refine_annotation db self c m (las ! i) = Inr (las' ! i, b)
             \<and> k < length sas' \<and> moi (sas' ! k) = m"
  using assms
proof (induction sas arbitrary: las las' sas' ch k)
  case Nil
  then show ?case by simp
next
  case (Cons sa sas)
  obtain r1 where r1: "process_sample db self c las sa = Inr r1"
    using Cons.prems(1)
    by (cases "process_sample db self c las sa") (simp_all add: bind_result_def)
  obtain r2 where r2: "process_samples db self c sas (fst r1) = Inr r2"
    using Cons.prems(1) r1
    by (cases "process_samples db self c sas (fst r1)") (simp_all add: bind_result_def)
  have out: "las' = fst r2" "sas' = fst (snd r1) # fst (snd r2)"
    using Cons.prems(1) r1 r2 by (simp_all add: bind_result_def)
  have p1: "process_sample db self c las sa = Inr (fst r1, fst (snd r1), snd (snd r1))"
    using r1 by simp
  have p2: "process_samples db self c sas (fst r1) = Inr (fst r2, fst (snd r2), snd (snd r2))"
    using r2 by simp
  from process_sample_Inr [OF p1] obtain m where
      m: "sample_moi (probability_threshold self)
            (filter (\<lambda>la. sample_annotations_id la = sa_id sa) las) 0 = Inr m"
    and sa1: "fst (snd r1) = sa\<lparr>moi := m\<rparr>"
    and len1: "length (fst r1) = length las"
    and each: "\<forall>i<length las.
                 sample_annotations_id (fst r1 ! i) = sample_annotations_id (las ! i)
               \<and> (sample_annotations_id (las ! i) \<noteq> sa_id sa \<longrightarrow> fst r1 ! i = las ! i)
               \<and> (sample_annotations_id (las ! i) = sa_id sa \<and> la_active (las ! i) = Inr True
                    \<longrightarrow> (\<exists>b. refine_annotation db self c m (las ! i) = Inr (fst r1 ! i, b)))"
    by blast
  show ?case
  proof (cases k)
    case 0
    then have sid: "sample_annotations_id (las ! i) = sa_id sa" using Cons.prems(5) by simp
    then obtain b where b: "refine_annotation db self c m (las ! i) = Inr (fst r1 ! i, b)"
      using each Cons.prems(4,6) by blast
    have "fst r2 ! i = fst r1 ! i \<and> length (fst r2) = length (fst r1)"
    proof (rule process_samples_frame [OF p2])
      have "sample_annotations_id (fst r1 ! i) = sa_id sa"
        using each Cons.prems(4) sid by simp
      moreover have "\<forall>s\<in>set sas. sa_id s \<noteq> sa_id sa"
        using Cons.prems(2) by (fastforce simp: image_iff)
      ultimately show "\<forall>s\<in>set sas. sa_id s \<noteq> sample_annotations_id (fst r1 ! i)" by simp
      show "i < length (fst r1)" using Cons.prems(4) len1 by simp
    qed
    then have "refine_annotation db self c m (las ! i) = Inr (las' ! i, b)"
      using b out(1) by simp
    then show ?thesis
      using m 0 out(2) sa1 by auto
  next
    case (Suc k')
    have k': "k' < length sas" using Cons.prems(3) Suc by simp
    have sk: "sa_id (sas ! k') = sample_annotations_id (las ! i)"
      using Cons.prems(5) Suc by simp
    have "sas ! k' \<in> set sas" using k' by simp
    then have ne: "sample_annotations_id (las ! i) \<noteq> sa_id sa"
      using Cons.prems(2) sk by (fastforce simp: image_iff)
    have same: "fst r1 ! i = las ! i" using each Cons.prems(4) ne by simp
    have filt: "filter (\<lambda>la. sample_annotations_id la = sa_id (sas ! k')) (fst r1)
                  = filter (\<lambda>la. sample_annotations_id la = sa_id (sas ! k')) las"
    proof (rule filter_unchanged [OF len1], intro allI impI)
      fix n assume n: "n < length las"
      show "(sample_annotations_id (fst r1 ! n) = sa_id (sas ! k'))
              = (sample_annotations_id (las ! n) = sa_id (sas ! k'))
            \<and> (sample_annotations_id (las ! n) = sa_id (sas ! k') \<longrightarrow> fst r1 ! n = las ! n)"
        using each n ne sk by auto
    qed
    have "\<exists>m b. sample_moi (probability_threshold self)
                 (filter (\<lambda>la. sample_annotations_id la = sa_id (sas ! k')) (fst r1)) 0 = Inr m
             \<and> refine_annotation db self c m (fst r1 ! i) = Inr (fst r2 ! i, b)
             \<and> k' < length (fst (snd r2)) \<and> moi (fst (snd r2) ! k') = m"
    proof (rule Cons.IH [OF p2 _ k'])
      show "distinct (map sa_id sas)" using Cons.prems(2) by simp
      show "i < length (fst r1)" using Cons.prems(4) len1 by simp
      show "sa_id (sas ! k') = sample_annotations_id (fst r1 ! i)" using sk same by simp
      show "la_active (fst r1 ! i) = Inr True" using Cons.prems(6) same by simp
    qed
    then show ?thesis
      using filt same out Suc by auto
  qed
qed

text \<open>
  Claim C1. Take one cycle of \<open>probabilistic_peak_annotation\<close> that completes, with
  \<open>c\<close> the allele counts it computes at its start, and a non-failed locus annotation
  (with peaks) of a sample annotation of the project. For every peak \<open>p\<close> of it that
  is called (probability above the threshold) and is a possible artifact
  (\<open>peak_height - artifact_contribution - artifact_error * soft_artifact_sd_limit \<le>
  absolute_peak_height_limit\<close>), the probability assigned to \<open>p\<close> in the cycle is
  \<open>(total - others ^ moi) / total\<close>, where \<open>this\<close> is the allele frequency of
  \<open>p\<close>'s bin times the probability of \<open>p\<close>, \<open>others\<close> is the sum of the same
  product over the called peaks \<open>q \<noteq> p\<close> of the annotation, \<open>total = (others +
  this) ^ moi\<close>, and \<open>moi\<close> is the estimate stored for the sample in this cycle.
  Sample annotation ids and the peak indices within the annotation are distinct.
\<close>

theorem cycle_new_probability:
  assumes cyc: "cycle db self sas las = Inr (las', sas', changed)"
      and cnt: "count_alleles (probability_threshold self) las (\<lambda>_. 0, \<lambda>_. 0) = Inr c"
      and ids: "distinct (map sa_id sas)"
      and k: "k < length sas" and i: "i < length las"
      and sid: "sa_id (sas ! k) = sample_annotations_id (las ! i)"
      and act: "la_active (las ! i) = Inr True"
      and lp: "get_locus_parameters db self (la_locus_id (las ! i)) = Inr lp"
      and idx: "distinct (map peak_index (la_annotated_peaks (las ! i)))"
      and j: "j < length (la_annotated_peaks (las ! i))"
      and called: "probability_threshold self < probability (la_annotated_peaks (las ! i) ! j)"
      and art: "possible_artifact lp (la_annotated_peaks (las ! i) ! j)"
  shows "let p = la_annotated_peaks (las ! i) ! j;
             f = (\<lambda>q. frequency_value c (la_locus_id (las ! i)) (bin_id q) * probability q);
             called_peaks = filter (\<lambda>q. probability_threshold self < probability q)
                              (la_annotated_peaks (las ! i));
             this = f p;
             others = sum_list (map f (filter (\<lambda>q. q \<noteq> p) called_peaks));
             total = (others + this) ^ moi (sas' ! k)
         in total \<noteq> 0
            \<and> probability (la_annotated_peaks (las' ! i) ! j)
                = (total - others ^ moi (sas' ! k)) / total"
proof -
  have ps: "process_samples db self c sas las = Inr (las', sas', changed)"
    using cyc cnt by (simp add: cycle_def bind_result_def)
  obtain m b where m: "refine_annotation db self c m (las ! i) = Inr (las' ! i, b)"
      "moi (sas' ! k) = m"
    using process_samples_target [OF ps ids k i sid act] by blast
  obtain v where v: "new_probability c (la_locus_id (las ! i)) m
               (filter (\<lambda>x. probability_threshold self < probability x)
                  (la_annotated_peaks (las ! i)))
               (la_annotated_peaks (las ! i) ! j) = Inr v"
      "probability (la_annotated_peaks (las' ! i) ! j) = v"
    using refine_annotation_peak [OF m(1) lp idx j called art] by blast
  have pin: "la_annotated_peaks (las ! i) ! j \<in> set (la_annotated_peaks (las ! i))"
    using j by simp
  note eq = filter_index_eq [OF idx pin,
      of "\<lambda>x. probability_threshold self < probability x"]
  show ?thesis
    using new_probability_Inr [OF v(1)] v(2) m(2)
    unfolding eq Let_def by simp
qed

theorem cycle_new_probability_witness:
  "cycle example_db_called example_project [example_sample_annotation] [example_called_annotation]
     = Inr ([example_called_annotation
               \<lparr>la_annotated_peaks := [example_stutter_peak\<lparr>probability := 3 / 4\<rparr>,
                                        example_main_peak]\<rparr>],
            [example_sample_annotation\<lparr>moi := 2\<rparr>], False)
   \<and> distinct (map sa_id [example_sample_annotation])
   \<and> la_active example_called_annotation = Inr True
   \<and> get_locus_parameters example_db_called example_project
         (la_locus_id example_called_annotation) = Inr example_params
   \<and> probability_threshold example_project < probability example_stutter_peak
   \<and> possible_artifact example_params example_stutter_peak
   \<and> probability (example_stutter_peak\<lparr>probability := 3 / 4\<rparr>) = ((1 + 1) ^ 2 - 1 ^ 2) / (1 + 1) ^ 2"
proof -
  obtain c where c: "count_alleles (probability_threshold example_project)
                       [example_called_annotation] (\<lambda>_. 0, \<lambda>_. 0) = Inr c"
    by (simp add: bind_result_def la_active_def failure_flag_def example_called_annotation_def)
  have h1: "cycle example_db_called example_project [example_sample_annotation]
              [example_called_annotation]
     = Inr ([example_called_annotation
               \<lparr>la_annotated_peaks := [example_stutter_peak\<lparr>probability := 3 / 4\<rparr>,
                                        example_main_peak]\<rparr>],
            [example_sample_annotation\<lparr>moi := 2\<rparr>], False)"
    by code_simp
  have h2: "distinct (map sa_id [example_sample_annotation])" by simp
  have h3: "0 < length [example_sample_annotation]" "0 < length [example_called_annotation]"
    by simp_all
  have h4: "sa_id ([example_sample_annotation] ! 0)
              = sample_annotations_id ([example_called_annotation] ! 0)"
    by (simp add: example_sample_annotation_def example_called_annotation_def)
  have h5: "la_active ([example_called_annotation] ! 0) = Inr True"
    by (simp add: la_active_def failure_flag_def bind_result_def example_called_annotation_def)
  have h6: "get_locus_parameters example_db_called example_project
              (la_locus_id ([example_called_annotation] ! 0)) = Inr example_params"
    by code_simp
  have h7: "distinct (map peak_index (la_annotated_peaks ([example_called_annotation] ! 0)))"
    by (simp add: example_called_annotation_def example_stutter_peak_def example_main_peak_def)
  have h8: "0 < length (la_annotated_peaks ([example_called_annotation] ! 0))"
    by (simp add: example_called_annotation_def)
  have h9: "probability_threshold example_project
              < probability (la_annotated_peaks ([example_called_annotation] ! 0) ! 0)"
    by (simp add: example_called_annotation_def example_stutter_peak_def example_project_def)
  have h10: "possible_artifact example_params
               (la_annotated_peaks ([example_called_annotation] ! 0) ! 0)"
    by (simp add: example_called_annotation_def example_stutter_peak_def example_params_def
          possible_artifact_def)
  note t = cycle_new_probability [OF h1 c h2 h3 h4 h5 h6 h7 h8 h9 h10]
  have p0: "la_annotated_peaks ([example_called_annotation] ! 0) ! 0 = example_stutter_peak"
    by (simp add: example_called_annotation_def)
  have "probability (example_stutter_peak\<lparr>probability := 3 / 4\<rparr>)
          = ((1 + 1) ^ 2 - 1 ^ 2) / (1 + 1) ^ 2"
    by simp
  then show ?thesis
    using t h1 h2 h5 h6 h9 h10 p0 by simp
qed

end
